theory Spec2Isabelle
  imports Complex_Main
begin

section \<open>JavaScript numbers\<close>

text \<open>
  A JavaScript number is modelled as a real number, one of the two infinities, or NaN.
  The operators on \<open>Num\<close> values are exact and the sign of zero is outside the model (a
  zero divisor counts as \<open>+0\<close>). NaN absorbs every operation and makes every comparison
  false, as in the language. Rounding to binary64 is a separate function \<open>rnd\<close>, applied
  after each operation in \<open>rh\<close>, whose sign near zero depends on it; the other functions
  of the program are modelled without rounding.
\<close>

datatype num = NaN | Inf bool | Num real

abbreviation PInf :: num where "PInf \<equiv> Inf True"
abbreviation NInf :: num where "NInf \<equiv> Inf False"

instantiation num :: "{uminus, plus, minus, times, inverse}"
begin

fun uminus_num :: "num \<Rightarrow> num" where
  "uminus_num NaN = NaN"
| "uminus_num (Inf s) = Inf (\<not> s)"
| "uminus_num (Num x) = Num (- x)"

fun plus_num :: "num \<Rightarrow> num \<Rightarrow> num" where
  "plus_num NaN b = NaN"
| "plus_num a NaN = NaN"
| "plus_num (Inf s) (Inf s') = (if s = s' then Inf s else NaN)"
| "plus_num (Inf s) (Num y) = Inf s"
| "plus_num (Num x) (Inf s') = Inf s'"
| "plus_num (Num x) (Num y) = Num (x + y)"

definition minus_num :: "num \<Rightarrow> num \<Rightarrow> num" where
  "minus_num a b = a + (- b)"

fun times_num :: "num \<Rightarrow> num \<Rightarrow> num" where
  "times_num NaN b = NaN"
| "times_num a NaN = NaN"
| "times_num (Inf s) (Inf s') = Inf (s = s')"
| "times_num (Inf s) (Num y) = (if y = 0 then NaN else Inf (s = (0 < y)))"
| "times_num (Num x) (Inf s') = (if x = 0 then NaN else Inf ((0 < x) = s'))"
| "times_num (Num x) (Num y) = Num (x * y)"

fun divide_num :: "num \<Rightarrow> num \<Rightarrow> num" where
  "divide_num NaN b = NaN"
| "divide_num a NaN = NaN"
| "divide_num (Inf s) (Inf s') = NaN"
| "divide_num (Inf s) (Num y) = Inf (s = (0 \<le> y))"
| "divide_num (Num x) (Inf s') = Num 0"
| "divide_num (Num x) (Num y) =
     (if y = 0 then (if x = 0 then NaN else Inf (0 < x)) else Num (x / y))"

definition inverse_num :: "num \<Rightarrow> num" where
  "inverse_num a = divide (Num 1) a"

instance ..

end

text \<open>The relational operators \<open><=\<close> and \<open><\<close>: false as soon as an operand is NaN.\<close>

fun js_le :: "num \<Rightarrow> num \<Rightarrow> bool" where
  "js_le NaN b = False"
| "js_le a NaN = False"
| "js_le (Inf s) (Inf s') = (s' \<or> \<not> s)"
| "js_le (Inf s) (Num y) = (\<not> s)"
| "js_le (Num x) (Inf s') = s'"
| "js_le (Num x) (Num y) = (x \<le> y)"

fun js_lt :: "num \<Rightarrow> num \<Rightarrow> bool" where
  "js_lt NaN b = False"
| "js_lt a NaN = False"
| "js_lt (Inf s) (Inf s') = (s' \<and> \<not> s)"
| "js_lt (Inf s) (Num y) = (\<not> s)"
| "js_lt (Num x) (Inf s') = s'"
| "js_lt (Num x) (Num y) = (x < y)"

subsection \<open>Rounding to binary64\<close>

text \<open>
  The result of an operation of the language is the exact result rounded to the nearest
  binary64 value, a tie going to the value with the even significand. Around \<open>x\<close> the
  binary64 values are the multiples of \<open>2 ^ (e - 52)\<close>, where \<open>e\<close> is the binary exponent
  of \<open>x\<close>, or -1022 if that is larger (the subnormal range). \<open>fl_real\<close> rounds to this grid;
  a rounded magnitude of \<open>2 ^ 1024\<close> or more is an infinity.
\<close>

definition round_even :: "real \<Rightarrow> int" where
  "round_even r =
     (let f = \<lfloor>r\<rfloor>
      in if r - of_int f < 1 / 2 then f
         else if 1 / 2 < r - of_int f then f + 1
         else if even f then f else f + 1)"

definition binade :: "real \<Rightarrow> int" where
  "binade x = max \<lfloor>log 2 \<bar>x\<bar>\<rfloor> (- 1022) - 52"

definition fl_real :: "real \<Rightarrow> real" where
  "fl_real x =
     (if x = 0 then 0
      else 2 powr of_int (binade x) * of_int (round_even (x / 2 powr of_int (binade x))))"

definition fl :: "real \<Rightarrow> num" where
  "fl x = (let y = fl_real x in if 2 ^ 1024 \<le> \<bar>y\<bar> then Inf (0 < y) else Num y)"

fun rnd :: "num \<Rightarrow> num" where
  "rnd (Num x) = fl x"
| "rnd a = a"

subsection \<open>The \<open>Math\<close> object\<close>

text \<open>The functions of the \<open>Math\<close> object that the program uses.\<close>

fun js_sin :: "num \<Rightarrow> num" where
  "js_sin (Num x) = Num (sin x)"
| "js_sin a = NaN"

fun js_cos :: "num \<Rightarrow> num" where
  "js_cos (Num x) = Num (cos x)"
| "js_cos a = NaN"

text \<open>
  The tangent has no value at the odd multiples of \<open>pi/2\<close>; no floating-point argument is
  one of them, and the model answers NaN there.
\<close>

fun js_tan :: "num \<Rightarrow> num" where
  "js_tan (Num x) = (if cos x = 0 then NaN else Num (tan x))"
| "js_tan a = NaN"

fun js_acos :: "num \<Rightarrow> num" where
  "js_acos (Num x) = (if - 1 \<le> x \<and> x \<le> 1 then Num (arccos x) else NaN)"
| "js_acos a = NaN"

fun js_sqrt :: "num \<Rightarrow> num" where
  "js_sqrt (Num x) = (if x < 0 then NaN else Num (sqrt x))"
| "js_sqrt (Inf s) = (if s then PInf else NaN)"
| "js_sqrt NaN = NaN"

text \<open>
  \<open>Math.exp\<close> returns a binary64 value; the model takes the exponential rounded to the
  nearest one (the standard leaves the approximation to the implementation).
\<close>

fun js_exp :: "num \<Rightarrow> num" where
  "js_exp (Num x) = fl (exp x)"
| "js_exp (Inf s) = (if s then PInf else Num 0)"
| "js_exp NaN = NaN"

text \<open>\<open>Math.pow\<close> with a natural-number exponent (the program only squares).\<close>

fun js_pow :: "num \<Rightarrow> nat \<Rightarrow> num" where
  "js_pow a 0 = Num 1"
| "js_pow NaN (Suc n) = NaN"
| "js_pow (Inf s) (Suc n) = Inf (s \<or> odd n)"
| "js_pow (Num x) (Suc n) = Num (x ^ Suc n)"

definition js_min :: "num \<Rightarrow> num \<Rightarrow> num" where
  "js_min a b = (if a = NaN \<or> b = NaN then NaN else if js_le a b then a else b)"

definition PI :: num where
  "PI = Num pi"

definition MS_PER_DAY :: int where
  "MS_PER_DAY = 1000 * 60 * 60 * 24"

section \<open>Relative humidity\<close>

text \<open>
  \<open>weather.rh\<close>: \<open>Math.min(1, 1 - Math.exp(-0.2 * (T_mx - T_mn)))\<close>, in binary64. The
  literal \<open>0.2\<close> is the binary64 value nearest to 1/5, negated; the difference, the product
  and the difference from 1 are each rounded.
\<close>

definition rh :: "num \<Rightarrow> num \<Rightarrow> num" where
  "rh T_mn T_mx =
     js_min (Num 1) (rnd (Num 1 - js_exp (rnd ((- rnd (Num 0.2)) * rnd (T_mx - T_mn)))))"

section \<open>Astronomy and radiation primitives\<close>

definition rad :: "num \<Rightarrow> num" where
  "rad deg = (PI / Num 180) * deg"

definition dr :: "num \<Rightarrow> num" where
  "dr J = Num 1 + (Num 0.033 * js_cos (((Num 2 * PI) / Num 356) * J))"

definition d :: "num \<Rightarrow> num" where
  "d J = Num 0.409 * js_sin ((((Num 2 * PI) / Num 365) * J) - Num 1.39)"

definition ws :: "num \<Rightarrow> num \<Rightarrow> num" where
  "ws j decl = js_acos ((- js_tan (rad j)) * js_tan decl)"

text \<open>
  \<open>R_a\<close> takes an optional unit; an omitted argument is \<open>None\<close>. Every value other than
  \<open>'mj'\<close> and \<open>'mm'\<close> is replaced by \<open>'mj'\<close>.
\<close>

definition R_a :: "num \<Rightarrow> num \<Rightarrow> num \<Rightarrow> num \<Rightarrow> string option \<Rightarrow> num" where
  "R_a dr' ws' j decl unit =
     (let unit1 = (if unit \<noteq> Some ''mj'' \<and> unit \<noteq> Some ''mm'' then Some ''mj'' else unit);
          Gsc = Num 0.0820;
          R_a' = ((Num 24 * Num 60) / PI) * Gsc * dr' *
                 ((ws' * js_sin (rad j) * js_sin decl) + (js_cos (rad j) * js_cos decl * js_sin ws'))
      in if unit1 = Some ''mj'' then R_a' else R_a' * Num 0.408)"

definition R_s :: "num \<Rightarrow> num \<Rightarrow> num \<Rightarrow> num" where
  "R_s R_a' T_mn T_mx =
     (let TD = T_mx - T_mn;
          KT = Num 0.00185 * js_pow TD 2 - Num 0.0433 * TD + Num 0.4023
      in KT * R_a' * js_sqrt TD)"

definition N :: "num \<Rightarrow> num" where
  "N ws' = (Num 24 / PI) * ws'"

definition PAR :: "num \<Rightarrow> num" where
  "PAR R_s' = Num 0.5 * R_s'"

definition PPF :: "num \<Rightarrow> num" where
  "PPF PAR' = PAR' / Num 0.218"

text \<open>
  \<open>f_s\<close>: the diffuse fraction \<open>f_d\<close> starts at 0 and is set by the first branch of the
  \<open>if\<close>/\<open>else if\<close> chain whose test holds; when no test holds (a NaN ratio) it stays 0.
\<close>

definition f_s :: "num \<Rightarrow> num \<Rightarrow> num" where
  "f_s R_s' R_a' =
     (let T_atm = R_s' / R_a';
          f_d = (if js_le T_atm (Num 0.07) then Num 1
                 else if js_lt (Num 0.07) T_atm \<and> js_le T_atm (Num 0.35)
                   then Num 1 - Num 2.3 * js_pow (T_atm - Num 0.07) 2
                 else if js_lt (Num 0.35) T_atm \<and> js_le T_atm (Num 0.75)
                   then Num 1.33 - Num 1.46 * T_atm
                 else if js_lt (Num 0.75) T_atm then Num 0.23
                 else Num 0)
      in Num 1 - f_d)"

section \<open>Dates\<close>

text \<open>
  A \<open>Date\<close> object holds a time value: milliseconds since 1970-01-01T00:00:00Z. The
  functions below are those of the language standard (ECMA-262, section "Date Objects"),
  under their names there. The local time zone of the host is a parameter \<open>tza\<close>, the
  standard's \<open>LocalTZA\<close> in milliseconds, constant over time (a zone without daylight
  saving). The range limit of time values (about 275000 years around 1970) is outside
  the model, like the range limit of numbers.
\<close>

definition msPerDay :: int where
  "msPerDay = 86400000"

definition Day :: "int \<Rightarrow> int" where
  "Day t = t div msPerDay"

definition TimeWithinDay :: "int \<Rightarrow> int" where
  "TimeWithinDay t = t mod msPerDay"

definition DaysInYear :: "int \<Rightarrow> int" where
  "DaysInYear y =
     (if y mod 4 \<noteq> 0 then 365
      else if y mod 100 \<noteq> 0 then 366
      else if y mod 400 \<noteq> 0 then 365
      else 366)"

definition DayFromYear :: "int \<Rightarrow> int" where
  "DayFromYear y =
     365 * (y - 1970) + (y - 1969) div 4 - (y - 1901) div 100 + (y - 1601) div 400"

definition TimeFromYear :: "int \<Rightarrow> int" where
  "TimeFromYear y = msPerDay * DayFromYear y"

text \<open>
  The standard defines \<open>YearFromTime t\<close> as the largest \<open>y\<close> with
  \<open>TimeFromYear y \<le> t\<close>. It is computed from the mean length of a year, 146097/400
  days, which is off by at most one year (lemma \<open>YearFromTime_bounds\<close> below).
\<close>

definition YearFromTime :: "int \<Rightarrow> int" where
  "YearFromTime t =
     (let y = 1970 + (Day t * 400) div 146097
      in if Day t < DayFromYear y then y - 1
         else if DayFromYear (y + 1) \<le> Day t then y + 1
         else y)"

definition InLeapYear :: "int \<Rightarrow> int" where
  "InLeapYear t = (if DaysInYear (YearFromTime t) = 366 then 1 else 0)"

definition DayWithinYear :: "int \<Rightarrow> int" where
  "DayWithinYear t = Day t - DayFromYear (YearFromTime t)"

definition MonthFromTime :: "int \<Rightarrow> int" where
  "MonthFromTime t =
     (let dy = DayWithinYear t; l = InLeapYear t
      in if dy < 31 then 0
         else if dy < 59 + l then 1
         else if dy < 90 + l then 2
         else if dy < 120 + l then 3
         else if dy < 151 + l then 4
         else if dy < 181 + l then 5
         else if dy < 212 + l then 6
         else if dy < 243 + l then 7
         else if dy < 273 + l then 8
         else if dy < 304 + l then 9
         else if dy < 334 + l then 10
         else 11)"

definition DateFromTime :: "int \<Rightarrow> int" where
  "DateFromTime t =
     (let dy = DayWithinYear t; l = InLeapYear t; m = MonthFromTime t
      in if m = 0 then dy + 1
         else if m = 1 then dy - 30
         else if m = 2 then dy - 58 - l
         else if m = 3 then dy - 89 - l
         else if m = 4 then dy - 119 - l
         else if m = 5 then dy - 150 - l
         else if m = 6 then dy - 180 - l
         else if m = 7 then dy - 211 - l
         else if m = 8 then dy - 242 - l
         else if m = 9 then dy - 272 - l
         else if m = 10 then dy - 303 - l
         else dy - 333 - l)"

definition HourFromTime :: "int \<Rightarrow> int" where
  "HourFromTime t = (t div 3600000) mod 24"

definition MinFromTime :: "int \<Rightarrow> int" where
  "MinFromTime t = (t div 60000) mod 60"

definition SecFromTime :: "int \<Rightarrow> int" where
  "SecFromTime t = (t div 1000) mod 60"

definition msFromTime :: "int \<Rightarrow> int" where
  "msFromTime t = t mod 1000"

text \<open>Day number of the first day of month \<open>m\<close> (0 to 11) within a year.\<close>

definition month_start :: "int \<Rightarrow> int \<Rightarrow> int" where
  "month_start y m =
     [0, 31, 59, 90, 120, 151, 181, 212, 243, 273, 304, 334] ! nat m
     + (if 2 \<le> m \<and> DaysInYear y = 366 then 1 else 0)"

definition MakeDay :: "int \<Rightarrow> int \<Rightarrow> int \<Rightarrow> int" where
  "MakeDay year month dt =
     (let ym = year + month div 12; mn = month mod 12
      in DayFromYear ym + month_start ym mn + dt - 1)"

definition MakeDate :: "int \<Rightarrow> int \<Rightarrow> int" where
  "MakeDate day time = day * msPerDay + time"

definition LocalTime :: "int \<Rightarrow> int \<Rightarrow> int" where
  "LocalTime tza t = t + tza"

definition UTC :: "int \<Rightarrow> int \<Rightarrow> int" where
  "UTC tza t = t - tza"

text \<open>
  \<open>new Date(year, month, date)\<close>: the fields are local time, and a year from 0 to 99
  stands for 1900 + year.
\<close>

definition new_Date :: "int \<Rightarrow> int \<Rightarrow> int \<Rightarrow> int \<Rightarrow> int" where
  "new_Date tza year month dt =
     (let yr = (if 0 \<le> year \<and> year \<le> 99 then 1900 + year else year)
      in UTC tza (MakeDate (MakeDay yr month dt) 0))"

definition getFullYear :: "int \<Rightarrow> int \<Rightarrow> int" where
  "getFullYear tza t = YearFromTime (LocalTime tza t)"

definition getDate :: "int \<Rightarrow> int \<Rightarrow> int" where
  "getDate tza t = DateFromTime (LocalTime tza t)"

definition setDate :: "int \<Rightarrow> int \<Rightarrow> int \<Rightarrow> int" where
  "setDate tza t dt =
     (let lt = LocalTime tza t
      in UTC tza (MakeDate (MakeDay (YearFromTime lt) (MonthFromTime lt) dt) (TimeWithinDay lt)))"

subsection \<open>Date strings\<close>

definition digit_char :: "nat \<Rightarrow> char" where
  "digit_char n = ''0123456789'' ! n"

primrec pad :: "nat \<Rightarrow> nat \<Rightarrow> string" where
  "pad 0 n = []"
| "pad (Suc w) n = pad w (n div 10) @ [digit_char (n mod 10)]"

text \<open>
  \<open>toISOString\<close>: the fields are UTC; a year outside 0 to 9999 is written with a sign and
  six digits.
\<close>

definition toISOString :: "int \<Rightarrow> string" where
  "toISOString t =
     (let y = YearFromTime t
      in (if 0 \<le> y \<and> y \<le> 9999 then pad 4 (nat y)
          else (if y < 0 then ''-'' else ''+'') @ pad 6 (nat \<bar>y\<bar>))
         @ ''-'' @ pad 2 (nat (MonthFromTime t + 1))
         @ ''-'' @ pad 2 (nat (DateFromTime t))
         @ ''T'' @ pad 2 (nat (HourFromTime t))
         @ '':'' @ pad 2 (nat (MinFromTime t))
         @ '':'' @ pad 2 (nat (SecFromTime t))
         @ ''.'' @ pad 3 (nat (msFromTime t)) @ ''Z'')"

text \<open>\<open>s.split(c)[0]\<close>: the part of \<open>s\<close> before the first \<open>c\<close>.\<close>

definition split_0 :: "char \<Rightarrow> string \<Rightarrow> string" where
  "split_0 c s = takeWhile (\<lambda>x. x \<noteq> c) s"

definition digit_val :: "char \<Rightarrow> int option" where
  "digit_val c = map_of (zip ''0123456789'' [0, 1, 2, 3, 4, 5, 6, 7, 8, 9]) c"

definition DaysInMonth :: "int \<Rightarrow> int \<Rightarrow> int" where
  "DaysInMonth y m =
     (if m = 1 then (if DaysInYear y = 366 then 29 else 28)
      else if m = 3 \<or> m = 5 \<or> m = 8 \<or> m = 10 then 30 else 31)"

text \<open>
  \<open>new Date(string)\<close> for the date-only form \<open>YYYY-MM-DD\<close> that the driver documents
  ("string, ISO Format (1995-01-01)"): midnight UTC of that day. The result is \<open>None\<close> for
  every other string, of which the model says nothing (the standard leaves most of them to
  the implementation).
\<close>

definition Date_parse :: "string \<Rightarrow> int option" where
  "Date_parse s =
     (case s of
        [y1, y2, y3, y4, s1, m1, m2, s2, d1, d2] \<Rightarrow>
          (case (digit_val y1, digit_val y2, digit_val y3, digit_val y4,
                 digit_val m1, digit_val m2, digit_val d1, digit_val d2) of
             (Some a, Some b, Some c, Some e, Some f, Some g, Some h, Some i) \<Rightarrow>
               (let y = 1000 * a + 100 * b + 10 * c + e; m = 10 * f + g; dt = 10 * h + i
                in if s1 = CHR ''-'' \<and> s2 = CHR ''-'' \<and> 1 \<le> m \<and> m \<le> 12
                      \<and> 1 \<le> dt \<and> dt \<le> DaysInMonth y (m - 1)
                   then Some (MakeDate (MakeDay y (m - 1) dt) 0)
                   else None)
           | _ \<Rightarrow> None)
      | _ \<Rightarrow> None)"

section \<open>Day of year\<close>

text \<open>
  \<open>doy\<close>: \<open>ceil((date - new Date(date.getFullYear(), 0, 1)) / MS_PER_DAY) + 1\<close>. The
  difference of two dates is the difference of their time values.
\<close>

definition doy :: "int \<Rightarrow> int \<Rightarrow> int" where
  "doy tza date =
     \<lceil>real_of_int (date - new_Date tza (getFullYear tza date) 0 1) / real_of_int MS_PER_DAY\<rceil> + 1"

section \<open>Arrays\<close>

text \<open>
  Reading an array past its end gives \<open>undefined\<close>, which is NaN in arithmetic. Writing an
  ordinary array at its length appends; writing further out leaves holes, filled here with
  the given value (the drivers never do so). A typed array has a fixed length, and a write
  outside it is dropped, which is what \<open>list_update\<close> does.
\<close>

definition arr_get :: "num list \<Rightarrow> nat \<Rightarrow> num" where
  "arr_get xs i = (if i < length xs then xs ! i else NaN)"

definition arr_set :: "'a \<Rightarrow> 'a list \<Rightarrow> nat \<Rightarrow> 'a \<Rightarrow> 'a list" where
  "arr_set hole xs i v =
     (if i < length xs then xs[i := v] else xs @ replicate (i - length xs) hole @ [v])"

section \<open>The series drivers\<close>

text \<open>
  The six numeric series that both drivers return, and the two further series (ISO date
  and day of year) of the driver that takes a start date.
\<close>

record ret =
  ret_N :: "num list"
  ret_R_a :: "num list"
  ret_R_s :: "num list"
  ret_PAR :: "num list"
  ret_PPF :: "num list"
  ret_f_s :: "num list"

record ret_dated = ret +
  ret_date :: "string list"
  ret_doy :: "int list"

subsection \<open>Driver with a start date (\<open>weather.solar.js\<close>)\<close>

text \<open>
  One pass of the loop body at index \<open>i\<close>: the state is the \<open>Date\<close> object, \<open>_doy\<close> and
  the returned object.
\<close>

definition solar_body ::
  "int \<Rightarrow> num \<Rightarrow> num list \<Rightarrow> num list \<Rightarrow> nat \<Rightarrow> int \<times> int \<times> ret_dated \<Rightarrow> int \<times> int \<times> ret_dated" where
  "solar_body tza j T_mn T_mx i st =
     (case st of (date, doy', r) \<Rightarrow>
        let dr' = dr (Num (of_int doy'));
            d' = d (Num (of_int doy'));
            ws' = ws j d';
            R_a' = R_a dr' ws' j d' None;
            N' = N ws';
            R_s' = R_s R_a' (arr_get T_mn i) (arr_get T_mx i);
            PAR' = PAR R_s';
            PPF' = PPF (PAR' * Num 1000000);
            f_s' = f_s R_s' R_a';
            r1 = r\<lparr>ret_N := arr_set NaN (ret_N r) i N',
                   ret_R_a := arr_set NaN (ret_R_a r) i R_a',
                   ret_R_s := arr_set NaN (ret_R_s r) i R_s',
                   ret_PAR := arr_set NaN (ret_PAR r) i PAR',
                   ret_PPF := arr_set NaN (ret_PPF r) i PPF',
                   ret_f_s := arr_set NaN (ret_f_s r) i f_s',
                   ret_date := arr_set [] (ret_date r) i (split_0 CHR ''T'' (toISOString date)),
                   ret_doy := arr_set 0 (ret_doy r) i doy'\<rparr>;
            date1 = setDate tza date (getDate tza date + 1)
        in (date1, doy tza date1, r1))"

function solar_loop ::
  "int \<Rightarrow> num \<Rightarrow> num list \<Rightarrow> num list \<Rightarrow> nat \<Rightarrow> nat \<Rightarrow> int \<times> int \<times> ret_dated \<Rightarrow> ret_dated" where
  "solar_loop tza j T_mn T_mx i is st =
     (if i < is then solar_loop tza j T_mn T_mx (i + 1) is (solar_body tza j T_mn T_mx i st)
      else snd (snd st))"
  by pat_completeness auto
termination
  by (relation "measure (\<lambda>(tza, j, T_mn, T_mx, i, is, st). is - i)") auto

declare solar_loop.simps [simp del]

text \<open>
  \<open>weather.solar(j, T_mn, T_mx, startDate)\<close>. The result is \<open>None\<close> only when the start date
  is not of the form that \<open>Date_parse\<close> models.
\<close>

definition solar :: "int \<Rightarrow> num \<Rightarrow> num list \<Rightarrow> num list \<Rightarrow> string \<Rightarrow> ret_dated option" where
  "solar tza j T_mn T_mx startDate =
     (case Date_parse startDate of
        None \<Rightarrow> None
      | Some date \<Rightarrow>
          Some (solar_loop tza j T_mn T_mx 0 (length T_mn)
                  (date, doy tza date,
                   \<lparr>ret_N = [], ret_R_a = [], ret_R_s = [], ret_PAR = [], ret_PPF = [],
                    ret_f_s = [], ret_date = [], ret_doy = []\<rparr>)))"

subsection \<open>Driver with a range of years (the variant in \<open>README.md\<close>)\<close>

text \<open>The inner loop over the days of one year; the state is \<open>day_count\<close> and the result.\<close>

definition years_body ::
  "num \<Rightarrow> num list \<Rightarrow> num list \<Rightarrow> int \<Rightarrow> nat \<times> ret \<Rightarrow> nat \<times> ret" where
  "years_body j T_mn T_mx day st =
     (case st of (day_count, r) \<Rightarrow>
        let dr' = dr (Num (of_int (day + 1)));
            d' = d (Num (of_int (day + 1)));
            ws' = ws j d';
            R_a' = R_a dr' ws' j d' None;
            N' = N ws';
            R_s' = R_s R_a' (arr_get T_mn day_count) (arr_get T_mx day_count);
            PAR' = PAR R_s';
            PPF' = PPF (PAR' * Num 1000000);
            f_s' = f_s R_s' R_a';
            r1 = r\<lparr>ret_N := (ret_N r)[day_count := N'],
                   ret_R_a := (ret_R_a r)[day_count := R_a'],
                   ret_R_s := (ret_R_s r)[day_count := R_s'],
                   ret_PAR := (ret_PAR r)[day_count := PAR'],
                   ret_PPF := (ret_PPF r)[day_count := PPF'],
                   ret_f_s := (ret_f_s r)[day_count := f_s']\<rparr>
        in (day_count + 1, r1))"

function day_loop ::
  "num \<Rightarrow> num list \<Rightarrow> num list \<Rightarrow> int \<Rightarrow> int \<Rightarrow> nat \<times> ret \<Rightarrow> nat \<times> ret" where
  "day_loop j T_mn T_mx day days_in_year st =
     (if day < days_in_year
      then day_loop j T_mn T_mx (day + 1) days_in_year (years_body j T_mn T_mx day st)
      else st)"
  by pat_completeness auto
termination
  by (relation "measure (\<lambda>(j, T_mn, T_mx, day, days_in_year, st). nat (days_in_year - day))") auto

declare day_loop.simps [simp del]

function year_loop ::
  "int \<Rightarrow> num \<Rightarrow> num list \<Rightarrow> num list \<Rightarrow> int \<Rightarrow> int \<Rightarrow> nat \<times> ret \<Rightarrow> nat \<times> ret" where
  "year_loop tza j T_mn T_mx year last_year st =
     (if year < last_year + 1
      then (let days_in_year =
                  \<lceil>real_of_int (new_Date tza (year + 1) 0 1 - new_Date tza year 0 1)
                     / real_of_int MS_PER_DAY\<rceil>
            in year_loop tza j T_mn T_mx (year + 1) last_year
                 (day_loop j T_mn T_mx 0 days_in_year st))
      else st)"
  by pat_completeness auto
termination
  by (relation "measure (\<lambda>(tza, j, T_mn, T_mx, year, last_year, st). nat (last_year + 1 - year))")
     auto

declare year_loop.simps [simp del]

text \<open>
  \<open>weather.solar(j, T_mn, T_mx, first_year, last_year)\<close>. The result is the list of lines
  written to the console and the returned value, \<open>None\<close> for \<open>null\<close>.
\<close>

definition solar_years ::
  "int \<Rightarrow> num \<Rightarrow> num list \<Rightarrow> num list \<Rightarrow> int \<Rightarrow> int \<Rightarrow> string list \<times> ret option" where
  "solar_years tza j T_mn T_mx first_year last_year =
     (let no_days =
            \<lceil>real_of_int (new_Date tza (last_year + 1) 0 1 - new_Date tza first_year 0 1)
               / real_of_int MS_PER_DAY\<rceil>
      in if int (length T_mn) \<noteq> no_days \<or> int (length T_mx) \<noteq> no_days
         then ([''T_mn or T_mx != no_days''], None)
         else ([], Some (snd (year_loop tza j T_mn T_mx first_year last_year
                 (0, \<lparr>ret_N = replicate (nat no_days) (Num 0),
                      ret_R_a = replicate (nat no_days) (Num 0),
                      ret_R_s = replicate (nat no_days) (Num 0),
                      ret_PAR = replicate (nat no_days) (Num 0),
                      ret_PPF = replicate (nat no_days) (Num 0),
                      ret_f_s = replicate (nat no_days) (Num 0)\<rparr>)))))"

section \<open>Notions used in the statements\<close>

text \<open>
  The four expressions that the branches of \<open>f_s\<close> assign to the diffuse fraction, as
  functions of the ratio \<open>T_atm\<close> (lemma \<open>f_s_of_ratio\<close> relates them to \<open>f_s\<close>).
\<close>

definition f_d_1 :: "real \<Rightarrow> real" where
  "f_d_1 T_atm = 1"

definition f_d_2 :: "real \<Rightarrow> real" where
  "f_d_2 T_atm = 1 - 2.3 * (T_atm - 0.07) ^ 2"

definition f_d_3 :: "real \<Rightarrow> real" where
  "f_d_3 T_atm = 1.33 - 1.46 * T_atm"

definition f_d_4 :: "real \<Rightarrow> real" where
  "f_d_4 T_atm = 0.23"

text \<open>
  What one pass of a driver's loop computes for day of year \<open>dy\<close> and index \<open>i\<close> of the
  temperature arrays.
\<close>

definition day_N :: "num \<Rightarrow> int \<Rightarrow> num" where
  "day_N j dy = N (ws j (d (Num (of_int dy))))"

definition day_R_a :: "num \<Rightarrow> int \<Rightarrow> num" where
  "day_R_a j dy =
     R_a (dr (Num (of_int dy))) (ws j (d (Num (of_int dy)))) j (d (Num (of_int dy))) None"

definition day_R_s :: "num \<Rightarrow> num list \<Rightarrow> num list \<Rightarrow> nat \<Rightarrow> int \<Rightarrow> num" where
  "day_R_s j T_mn T_mx i dy = R_s (day_R_a j dy) (arr_get T_mn i) (arr_get T_mx i)"

text \<open>The time value of the \<open>Date\<close> object in pass \<open>k\<close> of the loop that starts at \<open>date\<close>.\<close>

definition date_at :: "int \<Rightarrow> nat \<Rightarrow> int" where
  "date_at date k = date + int k * msPerDay"

text \<open>
  The number of days of the years \<open>first_year\<close> to \<open>last_year\<close> in the Gregorian calendar,
  as the specification words it ("leap-year-aware total day count").
\<close>

definition total_days :: "int \<Rightarrow> int \<Rightarrow> int" where
  "total_days first_year last_year = sum_list (map DaysInYear [first_year..last_year])"

section \<open>Arithmetic of numbers\<close>

lemma plus_NaN [simp]: "a + NaN = NaN" "NaN + a = NaN"
  by (cases a; simp)+

lemma times_NaN [simp]: "a * NaN = NaN" "NaN * a = NaN"
  by (cases a; simp)+

lemma divide_NaN [simp]: "a / NaN = NaN" "NaN / a = NaN"
  by (cases a; simp)+

lemma minus_NaN [simp]: "a - NaN = NaN" "NaN - a = NaN"
  by (simp_all add: minus_num_def)

lemma minus_Num [simp]: "Num x - Num y = Num (x - y)"
  by (simp add: minus_num_def)

lemma js_le_NaN [simp]: "\<not> js_le a NaN" "\<not> js_lt a NaN"
  by (cases a; simp)+

lemma js_pow_2 [simp]: "js_pow (Num x) 2 = Num (x ^ 2)" "js_pow NaN 2 = NaN"
  by (simp_all add: numeral_2_eq_2)

lemma js_min_Num [simp]: "js_min (Num x) (Num y) = Num (min x y)"
  by (simp add: js_min_def min_def)

section \<open>Rounding\<close>

text \<open>Rounding to the nearest integer, ties to even: monotone and odd.\<close>

lemma round_even_int [simp]: "round_even (of_int k) = k"
  by (simp add: round_even_def)

lemma round_even_cases: "round_even r = \<lfloor>r\<rfloor> \<or> round_even r = \<lfloor>r\<rfloor> + 1"
  by (simp add: round_even_def Let_def)

lemma round_even_mono:
  assumes "r \<le> s"
  shows "round_even r \<le> round_even s"
proof -
  have fg: "\<lfloor>r\<rfloor> \<le> \<lfloor>s\<rfloor>"
    using assms by (rule floor_mono)
  show ?thesis
  proof (cases "\<lfloor>r\<rfloor> = \<lfloor>s\<rfloor>")
    case True
    then show ?thesis
      using assms by (auto simp: round_even_def Let_def)
  next
    case False
    with fg have "\<lfloor>r\<rfloor> + 1 \<le> \<lfloor>s\<rfloor>"
      by simp
    then show ?thesis
      using round_even_cases[of r] round_even_cases[of s] by linarith
  qed
qed

lemma round_even_minus: "round_even (- r) = - round_even r"
proof (cases "r = of_int \<lfloor>r\<rfloor>")
  case True
  then obtain k where "r = of_int k" ..
  then show ?thesis
    by (simp flip: of_int_minus)
next
  case False
  then have c: "\<lceil>r\<rceil> = \<lfloor>r\<rfloor> + 1"
    by (metis ceiling_altdef)
  have f: "\<lfloor>- r\<rfloor> = - \<lfloor>r\<rfloor> - 1"
    using c by (simp add: floor_minus)
  show ?thesis
    unfolding round_even_def Let_def f
    by (auto simp: algebra_simps)
qed

lemma round_even_ge: "of_int k \<le> r \<Longrightarrow> k \<le> round_even r"
  using round_even_mono[of "of_int k" r] by simp

lemma round_even_le: "r \<le> of_int k \<Longrightarrow> round_even r \<le> k"
  using round_even_mono[of r "of_int k"] by simp


text \<open>
  Rounding to binary64: between two consecutive powers of two the rounded value stays
  between them, and rounding is monotone.
\<close>

lemma fl_real_0 [simp]: "fl_real 0 = 0"
  by (simp add: fl_real_def)

lemma fl_real_minus: "fl_real (- x) = - fl_real x"
  by (simp add: fl_real_def binade_def round_even_minus)

lemma log2_floor:
  assumes "0 < x"
  shows "2 powr of_int \<lfloor>log 2 x\<rfloor> \<le> x" "x < 2 powr of_int (\<lfloor>log 2 x\<rfloor> + 1)"
  using floor_log_eq_powr_iff[of x 2 "\<lfloor>log 2 x\<rfloor>"] assms by simp_all

lemma fl_real_bounds:
  assumes "0 < x"
  shows "0 \<le> fl_real x"
    and "fl_real x \<le> 2 powr of_int (binade x + 53)"
    and "- 1022 \<le> \<lfloor>log 2 x\<rfloor> \<Longrightarrow> 2 powr of_int (binade x + 52) \<le> fl_real x"
proof -
  let ?e = "\<lfloor>log 2 x\<rfloor>"
  let ?b = "binade x"
  let ?u = "(2::real) powr of_int ?b"
  have u: "0 < ?u"
    by simp
  have fl: "fl_real x = ?u * of_int (round_even (x / ?u))"
    using assms by (simp add: fl_real_def)
  have eb: "?e + 1 \<le> ?b + 53"
    using assms by (simp add: binade_def)
  have "x < 2 powr of_int (?e + 1)"
    using assms by (rule log2_floor)
  also have "\<dots> \<le> 2 powr of_int (?b + 53)"
    using eb by (simp only: powr_le_cancel_iff of_int_le_iff) 
  finally have xu: "x < 2 powr of_int (?b + 53)" .
  have split53: "2 powr of_int (?b + 53) = ?u * of_int (2 ^ 53)"
    by (simp add: powr_add)
  have split52: "2 powr of_int (?b + 52) = ?u * of_int (2 ^ 52)"
    by (simp add: powr_add)
  have "x / ?u \<le> of_int (2 ^ 53)"
    using xu u unfolding split53 by (simp add: field_simps)
  then have "round_even (x / ?u) \<le> 2 ^ 53"
    by (rule round_even_le)
  then have "of_int (round_even (x / ?u)) \<le> (of_int (2 ^ 53) :: real)"
    by (simp only: of_int_le_iff)
  then show "fl_real x \<le> 2 powr of_int (?b + 53)"
    unfolding fl split53 using u by (simp only: mult_le_cancel_left_pos)
  have "of_int 0 \<le> x / ?u"
    using assms by simp
  then have "0 \<le> round_even (x / ?u)"
    by (rule round_even_ge)
  then show "0 \<le> fl_real x"
    unfolding fl by simp
  show "2 powr of_int (?b + 52) \<le> fl_real x" if "- 1022 \<le> ?e"
  proof -
    have b: "?b + 52 = ?e"
      using that assms by (simp add: binade_def)
    have "2 powr of_int (?b + 52) \<le> x"
      unfolding b using assms by (rule log2_floor)
    then have "of_int (2 ^ 52) \<le> x / ?u"
      unfolding split52 using u by (simp add: field_simps)
    then have "2 ^ 52 \<le> round_even (x / ?u)"
      by (rule round_even_ge)
    then have "(of_int (2 ^ 52) :: real) \<le> of_int (round_even (x / ?u))"
      by (simp only: of_int_le_iff)
    then show ?thesis
      unfolding fl split52 using u by (simp only: mult_le_cancel_left_pos)
  qed
qed

lemma fl_real_mono_pos:
  assumes "0 < x" "x \<le> y"
  shows "fl_real x \<le> fl_real y"
proof -
  have y: "0 < y"
    using assms by simp
  have "log 2 x \<le> log 2 y"
    using assms by simp
  then have e: "\<lfloor>log 2 x\<rfloor> \<le> \<lfloor>log 2 y\<rfloor>"
    by (rule floor_mono)
  then have b: "binade x \<le> binade y"
    using assms by (simp add: binade_def)
  show ?thesis
  proof (cases "binade x = binade y")
    case True
    have "x / 2 powr of_int (binade y) \<le> y / 2 powr of_int (binade y)"
      using assms by (simp add: divide_right_mono)
    then have "round_even (x / 2 powr of_int (binade y)) \<le> round_even (y / 2 powr of_int (binade y))"
      by (rule round_even_mono)
    then show ?thesis
      using assms y by (simp add: fl_real_def True)
  next
    case False
    with b have lt: "binade x + 53 \<le> binade y + 52"
      by simp
    moreover have "binade y = max \<lfloor>log 2 y\<rfloor> (- 1022) - 52"
      "binade x = max \<lfloor>log 2 x\<rfloor> (- 1022) - 52"
      using y assms by (simp_all add: binade_def)
    ultimately have "- 1022 \<le> \<lfloor>log 2 y\<rfloor>"
      by linarith
    then have "2 powr of_int (binade y + 52) \<le> fl_real y"
      by (rule fl_real_bounds(3)[OF y])
    moreover have "fl_real x \<le> 2 powr of_int (binade x + 53)"
      by (rule fl_real_bounds(2)[OF assms(1)])
    moreover have "2 powr of_int (binade x + 53) \<le> (2::real) powr of_int (binade y + 52)"
      using lt by (simp only: powr_le_cancel_iff of_int_le_iff)
    ultimately show ?thesis
      by linarith
  qed
qed

lemma fl_real_mono:
  assumes "x \<le> y"
  shows "fl_real x \<le> fl_real y"
proof -
  consider "0 < x" | "x \<le> 0" "0 \<le> y" | "y < 0"
    using assms by linarith
  then show ?thesis
  proof cases
    case 1
    then show ?thesis using assms by (rule fl_real_mono_pos)
  next
    case 2
    have "fl_real x \<le> 0"
    proof (cases "x = 0")
      case False
      with 2 have "0 \<le> fl_real (- x)"
        by (intro fl_real_bounds(1)) simp
      then show ?thesis by (simp add: fl_real_minus)
    qed simp
    moreover have "0 \<le> fl_real y"
    proof (cases "y = 0")
      case False
      with 2 show ?thesis by (intro fl_real_bounds(1)) simp
    qed simp
    ultimately show ?thesis by simp
  next
    case 3
    then have "fl_real (- y) \<le> fl_real (- x)"
      using assms by (intro fl_real_mono_pos) simp_all
    then show ?thesis by (simp add: fl_real_minus)
  qed
qed


text \<open>Values that rounding leaves alone, and the numbers just above 1 that round to 1.\<close>

lemma round_even_near:
  assumes "of_int k \<le> r" "r < of_int k + 1 / 2"
  shows "round_even r = k"
proof -
  have "\<lfloor>r\<rfloor> = k"
    using assms by (intro floor_unique) simp_all
  then show ?thesis
    using assms by (simp add: round_even_def)
qed

lemma binade_eq:
  assumes "2 powr of_int k \<le> x" "x < 2 powr of_int (k + 1)" "- 1022 \<le> k"
  shows "binade x = k - 52"
proof -
  have "0 < (2::real) powr of_int k"
    by simp
  with assms(1) have x: "0 < x"
    by linarith
  then have "\<lfloor>log 2 x\<rfloor> = k"
    using floor_log_eq_powr_iff[of x 2 k] assms by simp
  then show ?thesis
    using x assms(3) by (simp add: binade_def)
qed

lemma fl_real_pow2:
  assumes "- 1022 \<le> k"
  shows "fl_real (2 powr of_int k) = 2 powr of_int k"
proof -
  have "(2::real) powr of_int k < 2 powr of_int (k + 1)"
    by simp
  then have b: "binade (2 powr of_int k) = k - 52"
    using assms by (intro binade_eq) simp_all
  have "(2::real) powr of_int k = 2 powr of_int (k - 52) * of_int (2 ^ 52)"
    by (simp flip: powr_add add: powr_diff)
  then have q: "(2::real) powr of_int k / 2 powr of_int (k - 52) = of_int (2 ^ 52)"
    by (simp add: field_simps)
  show ?thesis
    unfolding fl_real_def b q round_even_int
    by (simp flip: powr_add add: powr_diff)
qed

lemma fl_real_near_1:
  assumes "1 \<le> z" "z < 1 + 1 / 2 ^ 53"
  shows "fl_real z = 1"
proof -
  have b: "binade z = 0 - 52"
    using assms by (intro binade_eq) simp_all
  have u: "(2::real) powr of_int (0 - 52) = 1 / 2 ^ 52"
    by (simp add: powr_minus field_simps)
  have "round_even (z / (1 / 2 ^ 52)) = 2 ^ 52"
    using assms by (intro round_even_near) (simp_all add: field_simps)
  then show ?thesis
    using assms unfolding fl_real_def b u by simp
qed

lemma fl_real_values:
  "fl_real 1 = 1" "fl_real 2 = 2" "fl_real 8 = 8" "fl_real (1 / 4) = 1 / 4"
  "fl_real (1 / 8) = 1 / 8" "fl_real (1 / 2 ^ 52) = 1 / 2 ^ 52"
  "fl_real (1 / 2 ^ 54) = 1 / 2 ^ 54" "fl_real (1 / 2 ^ 55) = 1 / 2 ^ 55"
  "fl_real (1 / 2 ^ 49) = 1 / 2 ^ 49"
  using fl_real_pow2[of 0] fl_real_pow2[of 1] fl_real_pow2[of 3] fl_real_pow2[of "- 2"]
    fl_real_pow2[of "- 3"] fl_real_pow2[of "- 52"] fl_real_pow2[of "- 54"]
    fl_real_pow2[of "- 55"] fl_real_pow2[of "- 49"]
  by (simp_all add: powr_minus field_simps)

lemma fl_real_succ_1: "fl_real (1 + 1 / 2 ^ 52) = 1 + 1 / 2 ^ 52"
proof -
  have b: "binade (1 + 1 / 2 ^ 52) = 0 - 52"
    by (intro binade_eq) simp_all
  have u: "(2::real) powr of_int (0 - 52) = 1 / 2 ^ 52"
    by (simp add: powr_minus field_simps)
  have "(1 + 1 / 2 ^ 52) / (1 / 2 ^ 52) = (of_int (2 ^ 52 + 1) :: real)"
    by simp
  then have "round_even ((1 + 1 / 2 ^ 52) / (1 / 2 ^ 52)) = 2 ^ 52 + 1"
    by (simp only: round_even_int)
  then show ?thesis
    unfolding fl_real_def b u by simp
qed


lemma fl_finite: "\<bar>fl_real x\<bar> < 2 ^ 1024 \<Longrightarrow> fl x = Num (fl_real x)"
  by (simp add: fl_def)

lemma fl_not_NaN [simp]: "fl x \<noteq> NaN"
  by (simp add: fl_def Let_def)

lemma fl_0 [simp]: "fl 0 = Num 0"
  by (simp add: fl_def)

lemma fl_1 [simp]: "fl 1 = Num 1"
  by (simp add: fl_def fl_real_values)

lemma fl_mono:
  assumes "x \<le> y"
  shows "js_le (fl x) (fl y)"
  using fl_real_mono[OF assms] by (auto simp: fl_def Let_def)

text \<open>The order of numbers, and the operations of \<open>rh\<close> that keep or reverse it.\<close>

lemma js_le_refl: "a \<noteq> NaN \<Longrightarrow> js_le a a"
  by (cases a) simp_all

lemma js_le_trans: "js_le a b \<Longrightarrow> js_le b c \<Longrightarrow> js_le a c"
  by (cases a; cases b; cases c) auto

lemma js_le_lt_trans: "js_le a b \<Longrightarrow> js_lt b c \<Longrightarrow> js_lt a c"
  by (cases a; cases b; cases c) auto

lemma js_le_not_NaN: "js_le a b \<Longrightarrow> a \<noteq> NaN \<and> b \<noteq> NaN"
  by (cases a; cases b) auto

lemma rnd_mono: "js_le a b \<Longrightarrow> js_le (rnd a) (rnd b)"
proof (cases a; cases b)
  fix x y
  assume "a = Num x" "b = Num y" "js_le a b"
  then show ?thesis by (simp add: fl_mono)
next
  fix s y
  assume "a = Inf s" "b = Num y" "js_le a b"
  then show ?thesis by (cases "fl y") simp_all
next
  fix x s
  assume "a = Num x" "b = Inf s" "js_le a b"
  then show ?thesis by (cases "fl x") simp_all
qed simp_all

lemma times_neg_antimono:
  assumes "c < 0" "js_le a b"
  shows "js_le (Num c * b) (Num c * a)"
  using assms by (cases a; cases b) (auto simp: mult_left_mono_neg)

lemma js_exp_mono: "js_le a b \<Longrightarrow> js_le (js_exp a) (js_exp b)"
proof (cases a; cases b)
  fix x y
  assume "a = Num x" "b = Num y" "js_le a b"
  then show ?thesis by (simp add: fl_mono)
next
  fix s y
  assume *: "a = Inf s" "b = Num y" "js_le a b"
  have "js_le (fl 0) (fl (exp y))"
    by (rule fl_mono) simp
  with * show ?thesis by simp
next
  fix x s
  assume "a = Num x" "b = Inf s" "js_le a b"
  then show ?thesis by (cases "fl (exp x)") simp_all
qed auto

lemma one_minus_antimono: "js_le a b \<Longrightarrow> js_le (Num 1 - b) (Num 1 - a)"
  by (cases a; cases b) (auto simp: minus_num_def)

lemma js_min_mono: "js_le a b \<Longrightarrow> js_le (js_min (Num 1) a) (js_min (Num 1) b)"
  by (cases a; cases b) (auto simp: js_min_def)

lemma js_min_le_1: "a \<noteq> NaN \<Longrightarrow> js_le (js_min (Num 1) a) (Num 1)"
  by (cases a) (auto simp: js_min_def)

text \<open>The literal \<open>-0.2\<close>: a number between -1/4 and -1/8.\<close>

lemma minus_fifth:
  "- rnd (Num 0.2) = Num (- fl_real 0.2)" "1 / 8 \<le> fl_real 0.2" "fl_real 0.2 \<le> 1 / 4"
proof -
  show lo: "1 / 8 \<le> fl_real 0.2"
    using fl_real_mono[of "1 / 8" "0.2"] by (simp add: fl_real_values)
  show hi: "fl_real 0.2 \<le> 1 / 4"
    using fl_real_mono[of "0.2" "1 / 4"] by (simp add: fl_real_values)
  have "\<bar>fl_real 0.2\<bar> < 2 ^ 1024"
    using lo hi by simp
  then show "- rnd (Num 0.2) = Num (- fl_real 0.2)"
    by (simp add: fl_finite)
qed

lemma fl_exact: "fl_real x = x \<Longrightarrow> \<bar>x\<bar> < 2 ^ 1024 \<Longrightarrow> fl x = Num x"
  by (simp add: fl_def)

lemma fl_values:
  "fl 2 = Num 2" "fl (- 1) = Num (- 1)" "fl (- 8) = Num (- 8)"
  "fl (- (1 / 2 ^ 52)) = Num (- (1 / 2 ^ 52))"
  "fl (- (1 / 2 ^ 49)) = Num (- (1 / 2 ^ 49))"
  "fl (1 + 1 / 2 ^ 52) = Num (1 + 1 / 2 ^ 52)"
proof -
  show "fl (- (1 / 2 ^ 49)) = Num (- (1 / 2 ^ 49))"
    by (rule fl_exact) (simp_all only: fl_real_minus fl_real_values, simp)
  show "fl (1 + 1 / 2 ^ 52) = Num (1 + 1 / 2 ^ 52)"
    by (rule fl_exact) (simp_all only: fl_real_succ_1, simp)
  show "fl 2 = Num 2"
    by (rule fl_exact) (simp_all only: fl_real_values, simp)
  show "fl (- 1) = Num (- 1)"
    by (rule fl_exact) (simp_all only: fl_real_minus fl_real_values, simp)
  show "fl (- 8) = Num (- 8)"
    by (rule fl_exact) (simp_all only: fl_real_minus fl_real_values, simp)
  show "fl (- (1 / 2 ^ 52)) = Num (- (1 / 2 ^ 52))"
    by (rule fl_exact) (simp_all only: fl_real_minus fl_real_values, simp)
qed

section \<open>Relative humidity\<close>

text \<open>
  On finite inputs, and then the operations after the subtraction for any multiplier
  \<open>- c\<close> in place of the literal: the result is 0 at 0, does not decrease, is at most -1
  at -8 and negative at \<open>- 2 ^ - 49\<close> when \<open>c\<close> is at least 1/8, and is 0 at \<open>- 2 ^ - 52\<close> when
  \<open>c\<close> is between 1/8 and 1/4, because the exponential of a number between \<open>2 ^ - 55\<close> and
  \<open>2 ^ - 54\<close> rounds to 1.
\<close>

lemma rh_Num:
  "rh (Num a) (Num b) =
     js_min (Num 1) (rnd (Num 1 - js_exp (rnd (Num (- fl_real 0.2) * fl (b - a)))))"
  unfolding rh_def minus_fifth(1) by simp

lemma chain_zero: "js_min (Num 1) (rnd (Num 1 - js_exp (rnd (Num (- c) * Num 0)))) = Num 0"
  by simp

lemma chain_mono:
  assumes "0 < c" "js_le a b"
  shows "js_le (js_min (Num 1) (rnd (Num 1 - js_exp (rnd (Num (- c) * a)))))
               (js_min (Num 1) (rnd (Num 1 - js_exp (rnd (Num (- c) * b)))))"
proof -
  have "- c < 0"
    using assms(1) by simp
  then have "js_le (Num (- c) * b) (Num (- c) * a)"
    using assms(2) by (rule times_neg_antimono)
  then have "js_le (rnd (Num (- c) * b)) (rnd (Num (- c) * a))"
    by (rule rnd_mono)
  then have "js_le (js_exp (rnd (Num (- c) * b))) (js_exp (rnd (Num (- c) * a)))"
    by (rule js_exp_mono)
  then have "js_le (Num 1 - js_exp (rnd (Num (- c) * a))) (Num 1 - js_exp (rnd (Num (- c) * b)))"
    by (rule one_minus_antimono)
  then have "js_le (rnd (Num 1 - js_exp (rnd (Num (- c) * a))))
      (rnd (Num 1 - js_exp (rnd (Num (- c) * b))))"
    by (rule rnd_mono)
  then show ?thesis
    by (rule js_min_mono)
qed

lemma chain_minus_8:
  assumes "1 / 8 \<le> c"
  shows "js_le (js_min (Num 1) (rnd (Num 1 - js_exp (rnd (Num (- c) * Num (- 8)))))) (Num (- 1))"
proof -
  have "1 \<le> c * 8"
    using assms by simp
  then have "js_le (fl 1) (fl (c * 8))"
    by (rule fl_mono)
  then have "js_le (Num 1) (rnd (Num (- c) * Num (- 8)))"
    by simp
  then have "js_le (js_exp (Num 1)) (js_exp (rnd (Num (- c) * Num (- 8))))"
    by (rule js_exp_mono)
  moreover have "js_le (fl 2) (fl (exp 1))"
    using exp_ge_add_one_self[of 1] by (intro fl_mono) simp
  then have "js_le (Num 2) (js_exp (Num 1))"
    by (simp add: fl_values)
  ultimately have "js_le (Num 2) (js_exp (rnd (Num (- c) * Num (- 8))))"
    by (rule js_le_trans[rotated])
  then have "js_le (Num 1 - js_exp (rnd (Num (- c) * Num (- 8)))) (Num 1 - Num 2)"
    by (rule one_minus_antimono)
  then have "js_le (rnd (Num 1 - js_exp (rnd (Num (- c) * Num (- 8))))) (rnd (Num 1 - Num 2))"
    by (rule rnd_mono)
  then have "js_le (rnd (Num 1 - js_exp (rnd (Num (- c) * Num (- 8))))) (Num (- 1))"
    by (simp add: fl_values)
  then show ?thesis
    by (cases "rnd (Num 1 - js_exp (rnd (Num (- c) * Num (- 8))))") (auto simp: js_min_def)
qed

lemma chain_negative:
  assumes "1 / 8 \<le> c"
  shows "js_lt (js_min (Num 1) (rnd (Num 1 - js_exp (rnd (Num (- c) * Num (- (1 / 2 ^ 49)))))))
    (Num 0)"
proof -
  define p where "p = c * (1 / 2 ^ 49)"
  define u :: real where "u = 1 / 2 ^ 52"
  have prod: "Num (- c) * Num (- (1 / 2 ^ 49)) = Num p"
    by (simp add: p_def)
  have "u \<le> p"
    using assms by (simp add: p_def u_def field_simps)
  then have "js_le (fl u) (fl p)"
    by (rule fl_mono)
  moreover have flu: "fl u = Num u"
    unfolding u_def by (rule fl_exact) (simp_all only: fl_real_values, simp)
  ultimately have "js_le (Num u) (rnd (Num p))"
    by simp
  then have "js_le (js_exp (Num u)) (js_exp (rnd (Num p)))"
    by (rule js_exp_mono)
  moreover have "js_le (fl (1 + u)) (fl (exp u))"
    using exp_ge_add_one_self[of u] by (intro fl_mono) simp
  then have "js_le (Num (1 + u)) (js_exp (Num u))"
    unfolding u_def by (simp only: fl_values js_exp.simps)
  ultimately have "js_le (Num (1 + u)) (js_exp (rnd (Num p)))"
    by (rule js_le_trans[rotated])
  then have "js_le (Num 1 - js_exp (rnd (Num p))) (Num 1 - Num (1 + u))"
    by (rule one_minus_antimono)
  then have "js_le (rnd (Num 1 - js_exp (rnd (Num p)))) (rnd (Num 1 - Num (1 + u)))"
    by (rule rnd_mono)
  moreover have "rnd (Num 1 - Num (1 + u)) = Num (- u)"
    unfolding u_def using fl_values(4) by simp
  ultimately have "js_le (rnd (Num 1 - js_exp (rnd (Num p)))) (Num (- u))"
    by simp
  moreover have "0 < u"
    by (simp add: u_def)
  ultimately show ?thesis
    unfolding prod by (cases "rnd (Num 1 - js_exp (rnd (Num p)))") (auto simp: js_min_def)
qed

lemma chain_tiny:
  assumes "1 / 8 \<le> c" "c \<le> 1 / 4"
  shows "js_min (Num 1) (rnd (Num 1 - js_exp (rnd (Num (- c) * Num (- (1 / 2 ^ 52)))))) = Num 0"
proof -
  define p where "p = c * (1 / 2 ^ 52)"
  have p: "1 / 2 ^ 55 \<le> p" "p \<le> 1 / 2 ^ 54"
    using assms by (simp_all add: p_def field_simps)
  define q where "q = fl_real p"
  have "fl_real (1 / 2 ^ 55) \<le> q" "q \<le> fl_real (1 / 2 ^ 54)"
    unfolding q_def using p by (simp_all only: fl_real_mono)
  then have q: "1 / 2 ^ 55 \<le> q" "q \<le> 1 / 2 ^ 54"
    by (simp_all only: fl_real_values)
  have "\<bar>q\<bar> < 2 ^ 1024"
    using q by simp
  then have flp: "fl p = Num q"
    unfolding q_def by (rule fl_finite)
  have prod: "Num (- c) * Num (- (1 / 2 ^ 52)) = Num p"
    by (simp add: p_def)
  have "exp q \<le> 1 + q + q\<^sup>2"
    using q by (intro exp_bound) simp_all
  moreover have "q\<^sup>2 \<le> (1 / 2 ^ 54)\<^sup>2"
    using q by (intro power_mono) simp_all
  ultimately have "exp q < 1 + 1 / 2 ^ 53"
    using q(2) by (simp add: power2_eq_square)
  moreover have "0 \<le> q"
    using q(1) by simp
  then have "1 \<le> exp q"
    by simp
  ultimately have "fl_real (exp q) = 1"
    by (intro fl_real_near_1)
  then have e: "fl (exp q) = Num 1"
    by (simp add: fl_def)
  show ?thesis
    unfolding prod by (simp add: flp e)
qed

lemma rh_equal: "rh (Num a) (Num a) = Num 0"
  unfolding rh_Num by simp

lemma rh_mono:
  assumes "b - a \<le> b' - a'"
  shows "js_le (rh (Num a) (Num b)) (rh (Num a') (Num b'))"
proof -
  have "0 < fl_real 0.2"
    using minus_fifth(2) by simp
  moreover have "js_le (fl (b - a)) (fl (b' - a'))"
    using assms by (rule fl_mono)
  ultimately show ?thesis
    unfolding rh_Num by (rule chain_mono)
qed

lemma rh_le_1: "js_le (rh (Num a) (Num b)) (Num 1)"
proof -
  have "js_le (rh (Num a) (Num b)) (rh (Num a) (Num b))"
    by (rule rh_mono) simp
  then have "rh (Num a) (Num b) \<noteq> NaN"
    by (simp add: js_le_not_NaN)
  then have "rnd (Num 1 - js_exp (rnd (Num (- fl_real 0.2) * fl (b - a)))) \<noteq> NaN"
    unfolding rh_Num by (auto simp: js_min_def split: if_splits)
  then show ?thesis
    unfolding rh_Num by (rule js_min_le_1)
qed

lemma rh_minus_8: "js_le (rh (Num 8) (Num 0)) (Num (- 1))"
proof -
  have "fl (0 - 8) = Num (- 8)"
    by (simp add: fl_values)
  then show ?thesis
    unfolding rh_Num using chain_minus_8[OF minus_fifth(2)] by (simp only:)
qed

lemma rh_negative: "js_lt (rh (Num (1 / 2 ^ 49)) (Num 0)) (Num 0)"
proof -
  have "(0::real) - 1 / 2 ^ 49 = - (1 / 2 ^ 49)"
    by simp
  then have "fl (0 - 1 / 2 ^ 49) = Num (- (1 / 2 ^ 49))"
    by (simp only: fl_values)
  then show ?thesis
    unfolding rh_Num using chain_negative[OF minus_fifth(2)] by (simp only:)
qed

lemma rh_tiny: "rh (Num (1 + 1 / 2 ^ 52)) (Num 1) = Num 0"
proof -
  have "(1::real) - (1 + 1 / 2 ^ 52) = - (1 / 2 ^ 52)"
    by simp
  then have "fl (1 - (1 + 1 / 2 ^ 52)) = Num (- (1 / 2 ^ 52))"
    by (simp only: fl_values)
  then show ?thesis
    unfolding rh_Num using chain_tiny[OF minus_fifth(2,3)] by (simp only:)
qed

text \<open>
  C6 as stated says that \<open>rh\<close> is negative whenever \<open>T_max < T_min\<close>. For \<open>T_max = 1\<close> and
  \<open>T_min\<close> the next number after 1 the product \<open>-0.2 * (T_max - T_min)\<close> is about
  \<open>4.4e-17\<close>, its exponential rounds to 1, and \<open>rh\<close> returns 0.
\<close>

theorem rh_tiny_difference_counterexample:
  "(1::real) < 1 + 1 / 2 ^ 52 \<and> rh (Num (1 + 1 / 2 ^ 52)) (Num 1) = Num 0
   \<and> \<not> js_lt (rh (Num (1 + 1 / 2 ^ 52)) (Num 1)) (Num 0)"
  unfolding rh_tiny by simp

text \<open>
  C6, amended. On finite inputs \<open>rh\<close> is \<open>min(1, 1 - exp(-0.2 * (T_max - T_min)))\<close> computed
  in binary64, every operation rounded. It is 0 when the two temperatures are equal, it
  does not decrease when \<open>T_max - T_min\<close> grows, and it is at most 1. When \<open>T_max < T_min\<close>
  it is at most 0; it is negative as soon as \<open>T_min - T_max\<close> is at least \<open>2 ^ - 49\<close>, and
  it is not clamped from below: it is at most -1 once \<open>T_min - T_max\<close> is at least 8.
\<close>

theorem rh_binary64:
  "rh (Num T_min) (Num T_max) =
     js_min (Num 1) (rnd (Num 1 - js_exp (rnd ((- rnd (Num 0.2)) * rnd (Num T_max - Num T_min)))))
   \<and> (T_max = T_min \<longrightarrow> rh (Num T_min) (Num T_max) = Num 0)
   \<and> (T_max - T_min \<le> T_max' - T_min' \<longrightarrow>
        js_le (rh (Num T_min) (Num T_max)) (rh (Num T_min') (Num T_max')))
   \<and> js_le (rh (Num T_min) (Num T_max)) (Num 1)
   \<and> (T_max < T_min \<longrightarrow> js_le (rh (Num T_min) (Num T_max)) (Num 0))
   \<and> (T_max - T_min \<le> - (1 / 2 ^ 49) \<longrightarrow> js_lt (rh (Num T_min) (Num T_max)) (Num 0))
   \<and> (T_max - T_min \<le> - 8 \<longrightarrow> js_le (rh (Num T_min) (Num T_max)) (Num (- 1)))"
proof (intro conjI impI)
  show "rh (Num T_min) (Num T_max) =
     js_min (Num 1) (rnd (Num 1 - js_exp (rnd ((- rnd (Num 0.2)) * rnd (Num T_max - Num T_min)))))"
    by (simp add: rh_def)
  show "rh (Num T_min) (Num T_max) = Num 0" if "T_max = T_min"
    using that by (simp add: rh_equal)
  show "js_le (rh (Num T_min) (Num T_max)) (rh (Num T_min') (Num T_max'))"
    if "T_max - T_min \<le> T_max' - T_min'"
    using that by (rule rh_mono)
  show "js_le (rh (Num T_min) (Num T_max)) (Num 1)"
    by (rule rh_le_1)
  show "js_le (rh (Num T_min) (Num T_max)) (Num 0)" if "T_max < T_min"
    using rh_mono[of T_max T_min T_min T_min] that by (simp add: rh_equal)
  show "js_lt (rh (Num T_min) (Num T_max)) (Num 0)" if "T_max - T_min \<le> - (1 / 2 ^ 49)"
  proof -
    have "T_max - T_min \<le> 0 - 1 / 2 ^ 49"
      using that by simp
    then have "js_le (rh (Num T_min) (Num T_max)) (rh (Num (1 / 2 ^ 49)) (Num 0))"
      by (rule rh_mono)
    then show ?thesis
      using rh_negative by (rule js_le_lt_trans)
  qed
  show "js_le (rh (Num T_min) (Num T_max)) (Num (- 1))" if "T_max - T_min \<le> - 8"
    using rh_mono[of T_max T_min 0 8] that rh_minus_8 by (auto intro: js_le_trans)
qed

theorem rh_binary64_witness:
  "(5::real) = 5 \<and> (5::real) - 5 \<le> 15 - 5 \<and> (5::real) < 15 \<and> (5::real) - 15 \<le> - (1 / 2 ^ 49)
   \<and> (5::real) - 15 \<le> - 8
   \<and> rh (Num 5) (Num 5) = Num 0
   \<and> js_le (rh (Num 5) (Num 5)) (rh (Num 5) (Num 15))
   \<and> js_le (rh (Num 15) (Num 5)) (Num 0)
   \<and> js_lt (rh (Num 15) (Num 5)) (Num 0)
   \<and> js_le (rh (Num 15) (Num 5)) (Num (- 1))"
proof -
  have a: "(5::real) = 5" "(5::real) - 5 \<le> 15 - 5" "(5::real) < 15"
    "(5::real) - 15 \<le> - (1 / 2 ^ 49)" "(5::real) - 15 \<le> - 8"
    by simp_all
  show ?thesis
    using a rh_binary64[of 5 5 15 5] rh_binary64[of 15 5 0 0] by blast
qed

section \<open>Distance factor\<close>

text \<open>
  C5. For every day of year \<open>J\<close>, \<open>dr\<close> returns \<open>1 + 0.033 * cos((2 * pi / 356) * J)\<close>, with
  the divisor 356; so on day 89, a quarter of 356, the factor is exactly 1.
\<close>

theorem dr_formula:
  "dr (Num J) = Num (1 + 0.033 * cos ((2 * pi / 356) * J)) \<and> dr (Num 89) = Num 1"
  by (simp add: dr_def PI_def)

section \<open>Fraction of direct radiation\<close>

lemma f_s_of_ratio:
  "f_s R_s' R_a' =
     (case R_s' / R_a' of
        NaN \<Rightarrow> Num 1
      | Inf s \<Rightarrow> (if s then Num 0.77 else Num 0)
      | Num t \<Rightarrow> Num (1 - (if t \<le> 0.07 then f_d_1 t
                             else if t \<le> 0.35 then f_d_2 t
                             else if t \<le> 0.75 then f_d_3 t
                             else f_d_4 t)))"
  by (cases "R_s' / R_a'")
     (simp_all add: f_s_def Let_def f_d_1_def f_d_2_def f_d_3_def f_d_4_def)

lemma f_s_NaN: "f_s NaN a = Num 1"
  by (simp add: f_s_def)

lemma f_d_2_range:
  assumes "0.07 < t" "t \<le> 0.35"
  shows "0.23 \<le> f_d_2 t \<and> f_d_2 t \<le> 1"
proof -
  have "(t - 0.07) ^ 2 \<le> 0.28 ^ 2"
    using assms by (intro power_mono) simp_all
  then have "2.3 * (t - 0.07) ^ 2 \<le> 0.77"
    by (simp add: power2_eq_square)
  then show ?thesis
    by (simp add: f_d_2_def)
qed

text \<open>
  C8. When the ratio \<open>R_s / R_a\<close> is not NaN, \<open>f_s\<close> lies between 0 and 0.77: it is 0 when
  the ratio is at most 0.07 and 0.77 when the ratio exceeds 0.75.
\<close>

theorem f_s_range:
  "R_s' / R_a' \<noteq> NaN \<Longrightarrow>
     js_le (Num 0) (f_s R_s' R_a') \<and> js_le (f_s R_s' R_a') (Num 0.77)
       \<and> (js_le (R_s' / R_a') (Num 0.07) \<longrightarrow> f_s R_s' R_a' = Num 0)
       \<and> (js_lt (Num 0.75) (R_s' / R_a') \<longrightarrow> f_s R_s' R_a' = Num 0.77)"
proof (cases "R_s' / R_a'")
  case NaN
  assume "R_s' / R_a' \<noteq> NaN"
  with NaN show ?thesis by simp
next
  case (Inf s)
  then show ?thesis
    by (cases s) (simp_all add: f_s_of_ratio)
next
  case (Num t)
  consider "t \<le> 0.07" | "0.07 < t" "t \<le> 0.35" | "0.35 < t" "t \<le> 0.75" | "0.75 < t"
    by linarith
  then show ?thesis
  proof cases
    case 1
    with Num show ?thesis by (simp add: f_s_of_ratio f_d_1_def)
  next
    case 2
    with Num f_d_2_range[OF 2] show ?thesis by (simp add: f_s_of_ratio)
  next
    case 3
    with Num show ?thesis by (simp add: f_s_of_ratio f_d_3_def)
  next
    case 4
    with Num show ?thesis by (simp add: f_s_of_ratio f_d_4_def)
  qed
qed

theorem f_s_range_witness:
  "Num 1 / Num 2 \<noteq> NaN
   \<and> js_le (Num 0) (f_s (Num 1) (Num 2)) \<and> js_le (f_s (Num 1) (Num 2)) (Num 0.77)
   \<and> js_le (Num 1 / Num 100) (Num 0.07) \<and> f_s (Num 1) (Num 100) = Num 0
   \<and> js_lt (Num 0.75) (Num 9 / Num 10) \<and> f_s (Num 9) (Num 10) = Num 0.77"
  using f_s_range[of "Num 1" "Num 2"] f_s_range[of "Num 1" "Num 100"]
    f_s_range[of "Num 9" "Num 10"]
  by simp

text \<open>
  C4 as stated asks the two expressions that meet at a bracket boundary to agree there
  within \<open>1e-9\<close>. At 0.35 they do not.
\<close>

theorem f_d_boundary_counterexample:
  "\<not> \<bar>f_d_2 0.35 - f_d_3 0.35\<bar> \<le> 1 / 10 ^ 9"
  by (simp add: f_d_2_def f_d_3_def power2_eq_square)

text \<open>
  C4, amended. The expressions agree exactly at 0.07 (both are 1). At 0.35 the diffuse
  fraction drops by 0.00068 (from 0.81968 to 0.819) and at 0.75 by 0.005 (from 0.235 to
  0.23), so the direct fraction jumps up by these amounts.
\<close>

theorem f_d_boundaries:
  "f_d_1 0.07 = f_d_2 0.07
   \<and> f_d_2 0.35 - f_d_3 0.35 = 68 / 100000
   \<and> f_d_3 0.75 - f_d_4 0.75 = 5 / 1000
   \<and> f_s (Num 0.07) (Num 1) = Num (1 - f_d_1 0.07)
   \<and> f_s (Num 0.35) (Num 1) = Num (1 - f_d_2 0.35)
   \<and> f_s (Num 0.75) (Num 1) = Num (1 - f_d_3 0.75)"
  by (simp add: f_s_of_ratio f_d_1_def f_d_2_def f_d_3_def f_d_4_def power2_eq_square)

section \<open>Sunset hour angle\<close>

text \<open>
  A lower bound for \<open>pi\<close> from the Maclaurin expansion of the cosine: the cosine is still
  positive at 1.5664.
\<close>

lemma cos_lower_bound:
  fixes x :: real
  assumes "0 < x"
  shows "1 - x\<^sup>2 / 2 + x ^ 4 / 24 - x ^ 6 / 720 - x ^ 8 / 40320 \<le> cos x"
proof -
  obtain t where t: "cos x = (\<Sum>m<8. cos_coeff m * x ^ m) + (cos (t + 1/2 * real 8 * pi) / fact 8) * x ^ 8"
    using Maclaurin_cos_expansion2[OF assms, of 8] by auto
  have cc: "cos_coeff (Suc 0) = 0" "cos_coeff 2 = - 1 / 2" "cos_coeff 3 = 0" "cos_coeff 4 = 1 / 24"
    "cos_coeff 5 = 0" "cos_coeff 6 = - 1 / 720" "cos_coeff 7 = 0"
    by (simp_all add: cos_coeff_def fact_numeral)
  have set8: "{..<8::nat} = {0, 1, 2, 3, 4, 5, 6, 7}"
    by auto
  have s: "(\<Sum>m<8. cos_coeff m * x ^ m) = 1 - x\<^sup>2 / 2 + x ^ 4 / 24 - x ^ 6 / 720"
    unfolding set8 by (simp add: cc)
  have c: "cos (t + 1/2 * real 8 * pi) = cos t"
    by (simp add: cos_add)
  have "- 1 * x ^ 8 \<le> cos t * x ^ 8"
    using assms by (intro mult_right_mono) simp_all
  then have "- (x ^ 8 / 40320) \<le> (cos t / fact 8) * x ^ 8"
    by (simp add: fact_numeral field_simps)
  then show ?thesis
    unfolding t s c by simp
qed

lemma pi_lower: "3.1328 < pi"
proof -
  have "0 < cos (1.5664::real)"
  proof -
    have "(0::real) < 1 - 1.5664\<^sup>2 / 2 + 1.5664 ^ 4 / 24 - 1.5664 ^ 6 / 720 - 1.5664 ^ 8 / 40320"
      by (simp add: power2_eq_square eval_nat_numeral)
    also have "\<dots> \<le> cos 1.5664"
      by (rule cos_lower_bound) simp
    finally show ?thesis .
  qed
  moreover have "cos (pi / 2) = 0" by simp
  ultimately have "cos (pi / 2) < cos (1.5664::real)" by simp
  moreover have "(0::real) \<le> 1.5664" "(1.5664::real) \<le> pi" "0 \<le> pi / 2" "pi / 2 \<le> pi"
    using pi_ge_two by simp_all
  ultimately have "1.5664 < pi / 2"
    using cos_mono_less_eq[of "pi / 2" "1.5664"] by blast
  then show ?thesis by simp
qed

lemma tan_abs: "tan \<bar>x\<bar> = \<bar>tan x\<bar>" if "\<bar>x\<bar> < pi / 2" for x :: real
proof (cases "0 \<le> x")
  case True
  with that have "0 \<le> tan x" by (intro tan_pos_pi2_le) simp_all
  with True show ?thesis by simp
next
  case False
  with that have "0 \<le> tan (- x)" by (intro tan_pos_pi2_le) simp_all
  with False show ?thesis by simp
qed

lemma tan_prod_lt_1:
  fixes a b :: real
  assumes "\<bar>a\<bar> + \<bar>b\<bar> < pi / 2"
  shows "\<bar>tan a * tan b\<bar> < 1"
proof -
  have ab: "\<bar>a\<bar> < pi / 2" "\<bar>b\<bar> < pi / 2"
    using assms by linarith+
  have eq: "\<bar>tan a * tan b\<bar> = tan \<bar>a\<bar> * tan \<bar>b\<bar>"
    unfolding tan_abs[OF ab(1)] tan_abs[OF ab(2)] by (rule abs_mult)
  show ?thesis
  proof (cases "a = 0")
    case True
    then show ?thesis by simp
  next
    case False
    then have pos: "0 < tan \<bar>a\<bar>"
      using ab by (intro tan_gt_zero) simp_all
    have "tan \<bar>b\<bar> < tan (pi / 2 - \<bar>a\<bar>)"
      using assms False by (intro tan_monotone) simp_all
    also have "\<dots> = inverse (tan \<bar>a\<bar>)"
      by (rule tan_cot)
    finally have "tan \<bar>a\<bar> * tan \<bar>b\<bar> < tan \<bar>a\<bar> * inverse (tan \<bar>a\<bar>)"
      using pos by (intro mult_strict_left_mono)
    with pos show ?thesis
      unfolding eq by simp
  qed
qed

lemma rad_Num: "rad (Num x) = Num (pi / 180 * x)"
  by (simp add: rad_def PI_def)

lemma d_Num: "d (Num J) = Num (0.409 * sin (2 * pi / 365 * J - 1.39))"
  by (simp add: d_def PI_def)

lemma js_tan_Num:
  assumes "\<bar>x\<bar> < pi / 2"
  shows "js_tan (Num x) = Num (tan x)"
proof -
  have "0 < cos x"
    using assms by (intro cos_gt_zero_pi) (simp_all add: abs_less_iff)
  then show ?thesis by simp
qed

text \<open>
  C3. For a latitude strictly between -66.5 and 66.5 degrees and a day of year from 1 to
  366, the argument that \<open>ws\<close> passes to \<open>acos\<close> lies in \<open>[-1, 1]\<close>, so \<open>ws\<close> returns a
  real number, the arc cosine of that argument.
\<close>

theorem ws_defined:
  assumes "- 66.5 < j" "j < 66.5" "1 \<le> J" "J \<le> 366"
  shows "js_le (Num (- 1)) ((- js_tan (rad (Num j))) * js_tan (d (Num J)))
     \<and> js_le ((- js_tan (rad (Num j))) * js_tan (d (Num J))) (Num 1)
     \<and> ws (Num j) (d (Num J)) =
         Num (arccos (- tan (pi / 180 * j) * tan (0.409 * sin (2 * pi / 365 * J - 1.39))))"
proof -
  let ?a = "pi / 180 * j"
  let ?b = "0.409 * sin (2 * pi / 365 * J - 1.39)"
  have "\<bar>j\<bar> < 66.5"
    using assms by simp
  then have "pi * \<bar>j\<bar> < pi * 66.5"
    by (intro mult_strict_left_mono) simp_all
  then have a: "\<bar>?a\<bar> < 66.5 * pi / 180"
    by (simp add: abs_mult)
  have "\<bar>sin (2 * pi / 365 * J - 1.39)\<bar> \<le> 1"
    by simp
  then have b: "\<bar>?b\<bar> \<le> 0.409"
    by (simp add: abs_mult)
  have sum: "\<bar>?a\<bar> + \<bar>?b\<bar> < pi / 2"
    using a b pi_lower by simp
  then have ab: "\<bar>?a\<bar> < pi / 2" "\<bar>?b\<bar> < pi / 2"
    by linarith+
  have "\<bar>tan ?a * tan ?b\<bar> < 1"
    using sum by (rule tan_prod_lt_1)
  then have bounds: "- 1 \<le> - tan ?a * tan ?b" "- tan ?a * tan ?b \<le> 1"
    by (simp_all add: abs_less_iff)
  have arg: "(- js_tan (rad (Num j))) * js_tan (d (Num J)) = Num (- tan ?a * tan ?b)"
    unfolding rad_Num d_Num js_tan_Num[OF ab(1)] js_tan_Num[OF ab(2)] by simp
  show ?thesis
    unfolding ws_def arg using bounds by simp
qed

theorem ws_defined_witness:
  "(- 66.5 :: real) < 45 \<and> (45 :: real) < 66.5 \<and> (1 :: real) \<le> 172 \<and> (172 :: real) \<le> 366
   \<and> js_le (Num (- 1)) ((- js_tan (rad (Num 45))) * js_tan (d (Num 172)))
   \<and> js_le ((- js_tan (rad (Num 45))) * js_tan (d (Num 172))) (Num 1)
   \<and> ws (Num 45) (d (Num 172)) =
         Num (arccos (- tan (pi / 180 * 45) * tan (0.409 * sin (2 * pi / 365 * 172 - 1.39))))"
proof -
  have h: "(- 66.5 :: real) < 45" "(45 :: real) < 66.5" "(1 :: real) \<le> 172" "(172 :: real) \<le> 366"
    by simp_all
  from ws_defined[OF h] h show ?thesis
    by blast
qed

section \<open>Calendar\<close>

text \<open>The day number of January 1 grows by the length of the year.\<close>

lemma div_step:
  fixes x k :: int
  assumes "0 < k"
  shows "(x + 1) div k = x div k + (if (x + 1) mod k = 0 then 1 else 0)"
proof (cases "(x + 1) mod k = 0")
  case True
  then obtain q where q: "x + 1 = k * q"
    by (auto simp: mod_eq_0_iff_dvd)
  then have x: "x = k * (q - 1) + (k - 1)"
    by (simp add: algebra_simps)
  have "x div k = q - 1"
    using assms by (subst x) (simp add: div_pos_pos_trivial)
  moreover have "(x + 1) div k = q"
    using assms by (simp add: q)
  ultimately show ?thesis
    using True by simp
next
  case False
  have "x mod k + 1 < k"
  proof -
    have "x mod k < k" "0 \<le> x mod k"
      using assms by simp_all
    moreover have "x mod k + 1 \<noteq> k"
    proof
      assume "x mod k + 1 = k"
      then have "(x mod k + 1) mod k = 0" by simp
      then have "(x + 1) mod k = 0" by (simp add: mod_add_left_eq)
      with False show False by simp
    qed
    ultimately show ?thesis by linarith
  qed
  moreover have "0 \<le> x mod k + 1"
    using assms by (simp add: add_nonneg_nonneg)
  ultimately have z: "(x mod k + 1) div k = 0"
    by (simp add: div_pos_pos_trivial)
  have "x + 1 = (x mod k + 1) + (x div k) * k"
    by simp
  then have "(x + 1) div k = ((x mod k + 1) + (x div k) * k) div k"
    by simp
  also have "\<dots> = x div k + (x mod k + 1) div k"
    using assms by (subst div_mult_self1) simp_all
  finally have "(x + 1) div k = x div k"
    using z by simp
  with False show ?thesis by simp
qed


lemma DayFromYear_Suc: "DayFromYear (y + 1) = DayFromYear y + DaysInYear y"
proof -
  have "y - 1969 + 1 = y + (- 492) * 4"
    by simp
  then have "(y - 1969 + 1) mod 4 = y mod 4"
    by (simp only: mod_mult_self1)
  then have m4: "((y - 1969) + 1) mod 4 = 0 \<longleftrightarrow> y mod 4 = 0"
    by simp
  have "y - 1901 + 1 = y + (- 19) * 100"
    by simp
  then have "(y - 1901 + 1) mod 100 = y mod 100"
    by (simp only: mod_mult_self1)
  then have m100: "((y - 1901) + 1) mod 100 = 0 \<longleftrightarrow> y mod 100 = 0"
    by simp
  have "y - 1601 + 1 = y + (- 4) * 400"
    by simp
  then have "(y - 1601 + 1) mod 400 = y mod 400"
    by (simp only: mod_mult_self1)
  then have m400: "((y - 1601) + 1) mod 400 = 0 \<longleftrightarrow> y mod 400 = 0"
    by simp
  have i1: "y mod 4 = 0" if "y mod 100 = 0"
    using that mod_mod_cancel[of 4 100 y] by simp
  have i2: "y mod 100 = 0" if "y mod 400 = 0"
    using that mod_mod_cancel[of 100 400 y] by simp
  have s4: "(y + 1 - 1969) div 4 = (y - 1969) div 4 + (if y mod 4 = 0 then 1 else 0)"
    using div_step[of 4 "y - 1969"] m4 by (simp add: algebra_simps)
  have s100: "(y + 1 - 1901) div 100 = (y - 1901) div 100 + (if y mod 100 = 0 then 1 else 0)"
    using div_step[of 100 "y - 1901"] m100 by (simp add: algebra_simps)
  have s400: "(y + 1 - 1601) div 400 = (y - 1601) div 400 + (if y mod 400 = 0 then 1 else 0)"
    using div_step[of 400 "y - 1601"] m400 by (simp add: algebra_simps)
  show ?thesis
    unfolding DayFromYear_def DaysInYear_def s4 s100 s400
    using i1 i2 by auto
qed

text \<open>
  \<open>YearFromTime\<close> is what the standard defines: the largest year that starts at or before
  the time value.
\<close>

lemma div_bounds:
  fixes a k :: int
  assumes "0 < k"
  shows "k * (a div k) \<le> a" "a < k * (a div k) + k"
proof -
  have "k * (a div k) + a mod k = a"
    by (rule mult_div_mod_eq)
  moreover have "0 \<le> a mod k" "a mod k < k"
    using assms by simp_all
  ultimately show "k * (a div k) \<le> a" "a < k * (a div k) + k"
    by linarith+
qed

lemma DayFromYear_bounds:
  "146097 * (y - 1970) - 506 \<le> 400 * DayFromYear y"
  "400 * DayFromYear y \<le> 146097 * (y - 1970) + 589"
proof -
  define a where "a = (y - 1969) div 4"
  define b where "b = (y - 1901) div 100"
  define c where "c = (y - 1601) div 400"
  have b4: "4 * a \<le> y - 1969" "y - 1969 < 4 * a + 4"
    unfolding a_def using div_bounds[of 4 "y - 1969"] by simp_all
  have b100: "100 * b \<le> y - 1901" "y - 1901 < 100 * b + 100"
    unfolding b_def using div_bounds[of 100 "y - 1901"] by simp_all
  have b400: "400 * c \<le> y - 1601" "y - 1601 < 400 * c + 400"
    unfolding c_def using div_bounds[of 400 "y - 1601"] by simp_all
  have D: "400 * DayFromYear y = 146000 * y - 287620000 + 400 * a - 400 * b + 400 * c"
    by (simp add: DayFromYear_def a_def b_def c_def algebra_simps)
  have l: "146097 * (y - 1970) - 506 = 146097 * y - 287811596"
    "146097 * (y - 1970) + 589 = 146097 * y - 287810501"
    by (simp_all add: algebra_simps)
  show "146097 * (y - 1970) - 506 \<le> 400 * DayFromYear y"
    unfolding D l using b4 b100 b400 by linarith
  show "400 * DayFromYear y \<le> 146097 * (y - 1970) + 589"
    unfolding D l using b4 b100 b400 by linarith
qed

lemma YearFromTime_bounds:
  "DayFromYear (YearFromTime t) \<le> Day t \<and> Day t < DayFromYear (YearFromTime t + 1)"
proof -
  define u where "u = (Day t * 400) div 146097"
  have u: "146097 * u \<le> 400 * Day t" "400 * Day t < 146097 * u + 146097"
    unfolding u_def using div_bounds[of 146097 "Day t * 400"] by (simp_all add: mult.commute)
  have y: "YearFromTime t =
      (if Day t < DayFromYear (1970 + u) then 1970 + u - 1
       else if DayFromYear (1970 + u + 1) \<le> Day t then 1970 + u + 1 else 1970 + u)"
    by (simp add: YearFromTime_def Let_def u_def)
  have lo: "400 * DayFromYear (1970 + u - 1) \<le> 146097 * u - 145508"
    using DayFromYear_bounds(2)[of "1970 + u - 1"] by (simp add: algebra_simps)
  have hi: "146097 * u + 291688 \<le> 400 * DayFromYear (1970 + u + 1 + 1)"
    using DayFromYear_bounds(1)[of "1970 + u + 1 + 1"] by (simp add: algebra_simps)
  have a: "DayFromYear (1970 + u - 1) \<le> Day t"
    using lo u(1) by linarith
  have b: "Day t < DayFromYear (1970 + u + 1 + 1)"
    using hi u(2) by linarith
  show ?thesis
    unfolding y using a b by simp
qed

lemma YearFromTime_standard:
  "TimeFromYear (YearFromTime t) \<le> t \<and> t < TimeFromYear (YearFromTime t + 1)"
proof -
  have "86400000 * (t div 86400000) \<le> t" "t < 86400000 * (t div 86400000) + 86400000"
    using div_bounds[of 86400000 t] by simp_all
  moreover have "DayFromYear (YearFromTime t) \<le> t div 86400000"
    "t div 86400000 < DayFromYear (YearFromTime t + 1)"
    using YearFromTime_bounds[of t] by (simp_all add: Day_def msPerDay_def)
  ultimately show ?thesis
    unfolding TimeFromYear_def msPerDay_def by linarith
qed


lemma DayFromYear_mono: "y \<le> y' \<Longrightarrow> DayFromYear y \<le> DayFromYear y'"
proof (induction y' rule: int_ge_induct)
  case base
  show ?case by simp
next
  case (step i)
  have "0 \<le> DaysInYear i"
    by (simp add: DaysInYear_def)
  with step.IH show ?case
    by (simp add: DayFromYear_Suc)
qed

lemma YearFromTime_largest:
  "TimeFromYear y \<le> t \<longleftrightarrow> y \<le> YearFromTime t"
proof
  assume le: "TimeFromYear y \<le> t"
  show "y \<le> YearFromTime t"
  proof (rule ccontr)
    assume "\<not> y \<le> YearFromTime t"
    then have "YearFromTime t + 1 \<le> y"
      by simp
    then have "DayFromYear (YearFromTime t + 1) \<le> DayFromYear y"
      by (rule DayFromYear_mono)
    then have "TimeFromYear (YearFromTime t + 1) \<le> TimeFromYear y"
      by (simp add: TimeFromYear_def msPerDay_def)
    with le YearFromTime_standard[of t] show False
      by linarith
  qed
next
  assume "y \<le> YearFromTime t"
  then have "DayFromYear y \<le> DayFromYear (YearFromTime t)"
    by (rule DayFromYear_mono)
  then have "TimeFromYear y \<le> TimeFromYear (YearFromTime t)"
    by (simp add: TimeFromYear_def msPerDay_def)
  with YearFromTime_standard[of t] show "TimeFromYear y \<le> t"
    by linarith
qed

text \<open>
  \<open>setDate(getDate() + 1)\<close> moves a time value on by one day, whatever the time zone
  offset of the host, as long as the offset is constant: with daylight saving the local
  day that holds a change of offset has 23 or 25 hours, which is outside the model.
\<close>

lemma MonthFromTime_range: "0 \<le> MonthFromTime t \<and> MonthFromTime t \<le> 11"
  by (simp add: MonthFromTime_def Let_def)

lemma MakeDay_fields:
  "MakeDay (YearFromTime t) (MonthFromTime t) (DateFromTime t + k) = Day t + k"
proof -
  have r: "0 \<le> MonthFromTime t" "MonthFromTime t \<le> 11"
    using MonthFromTime_range by simp_all
  then have dm: "MonthFromTime t div 12 = 0" "MonthFromTime t mod 12 = MonthFromTime t"
    by simp_all
  have "month_start (YearFromTime t) (MonthFromTime t) + DateFromTime t - 1 = DayWithinYear t"
    unfolding month_start_def DateFromTime_def MonthFromTime_def InLeapYear_def Let_def
    by (simp add: nth_Cons')
  then show ?thesis
    unfolding MakeDay_def Let_def dm by (simp add: DayWithinYear_def)
qed

lemma setDate_next: "setDate tza t (getDate tza t + 1) = t + msPerDay"
  unfolding setDate_def getDate_def Let_def MakeDay_fields
  by (simp add: UTC_def MakeDate_def LocalTime_def Day_def TimeWithinDay_def algebra_simps)

text \<open>
  \<open>new Date(y, 0, 1)\<close> is the local midnight that starts year \<open>y\<close>, or year \<open>1900 + y\<close>
  when \<open>y\<close> is from 0 to 99; the difference of two such dates is a whole number of days.
\<close>

lemma new_Date_jan1:
  "new_Date tza y 0 1 =
     DayFromYear (if 0 \<le> y \<and> y \<le> 99 then 1900 + y else y) * msPerDay - tza"
  by (simp add: new_Date_def Let_def MakeDay_def MakeDate_def UTC_def month_start_def)

section \<open>The driver with a start date\<close>

lemma date_at_Suc: "date_at (date + msPerDay) m = date_at date (Suc m)"
  by (simp add: date_at_def algebra_simps)

text \<open>
  While the index equals the length of every series, a pass of the loop appends one entry
  to each and moves the date on by one day.
\<close>

lemma solar_body_append:
  assumes "length (ret_N r) = i" "length (ret_R_a r) = i" "length (ret_R_s r) = i"
    "length (ret_PAR r) = i" "length (ret_PPF r) = i" "length (ret_f_s r) = i"
    "length (ret_date r) = i" "length (ret_doy r) = i"
  shows "solar_body tza j T_mn T_mx i (date, dy, r) =
    (date + msPerDay, doy tza (date + msPerDay),
     r\<lparr>ret_N := ret_N r @ [day_N j dy],
       ret_R_a := ret_R_a r @ [day_R_a j dy],
       ret_R_s := ret_R_s r @ [day_R_s j T_mn T_mx i dy],
       ret_PAR := ret_PAR r @ [PAR (day_R_s j T_mn T_mx i dy)],
       ret_PPF := ret_PPF r @ [PPF (PAR (day_R_s j T_mn T_mx i dy) * Num 1000000)],
       ret_f_s := ret_f_s r @ [f_s (day_R_s j T_mn T_mx i dy) (day_R_a j dy)],
       ret_date := ret_date r @ [split_0 CHR ''T'' (toISOString date)],
       ret_doy := ret_doy r @ [dy]\<rparr>)"
  using assms
  by (simp add: solar_body_def Let_def arr_set_def day_N_def day_R_a_def day_R_s_def setDate_next)

lemma solar_loop_unfold:
  assumes "length (ret_N r) = i" "length (ret_R_a r) = i" "length (ret_R_s r) = i"
    "length (ret_PAR r) = i" "length (ret_PPF r) = i" "length (ret_f_s r) = i"
    "length (ret_date r) = i" "length (ret_doy r) = i"
  shows "solar_loop tza j T_mn T_mx i (i + n) (date, doy tza date, r) =
     r\<lparr>ret_N := ret_N r @ map (\<lambda>m. day_N j (doy tza (date_at date m))) [0..<n],
       ret_R_a := ret_R_a r @ map (\<lambda>m. day_R_a j (doy tza (date_at date m))) [0..<n],
       ret_R_s := ret_R_s r @
         map (\<lambda>m. day_R_s j T_mn T_mx (i + m) (doy tza (date_at date m))) [0..<n],
       ret_PAR := ret_PAR r @
         map (\<lambda>m. PAR (day_R_s j T_mn T_mx (i + m) (doy tza (date_at date m)))) [0..<n],
       ret_PPF := ret_PPF r @
         map (\<lambda>m. PPF (PAR (day_R_s j T_mn T_mx (i + m) (doy tza (date_at date m)))
                        * Num 1000000)) [0..<n],
       ret_f_s := ret_f_s r @
         map (\<lambda>m. f_s (day_R_s j T_mn T_mx (i + m) (doy tza (date_at date m)))
                   (day_R_a j (doy tza (date_at date m)))) [0..<n],
       ret_date := ret_date r @ map (\<lambda>m. split_0 CHR ''T'' (toISOString (date_at date m))) [0..<n],
       ret_doy := ret_doy r @ map (\<lambda>m. doy tza (date_at date m)) [0..<n]\<rparr>"
  using assms
proof (induction n arbitrary: i date r)
  case 0
  show ?case by (subst solar_loop.simps) simp
next
  case (Suc n)
  have step: "solar_loop tza j T_mn T_mx i (i + Suc n) (date, doy tza date, r) =
      solar_loop tza j T_mn T_mx (Suc i) (Suc i + n)
        (solar_body tza j T_mn T_mx i (date, doy tza date, r))"
    by (subst solar_loop.simps) simp
  have d0: "date_at date 0 = date"
    by (simp add: date_at_def)
  show ?case
    unfolding step solar_body_append[OF Suc.prems] map_upt_Suc d0
    by (subst Suc.IH) (simp_all add: Suc.prems date_at_Suc)
qed

text \<open>The result of the driver, series by series.\<close>

lemma solar_unfold:
  "solar tza j T_mn T_mx s =
     (case Date_parse s of
        None \<Rightarrow> None
      | Some date \<Rightarrow>
          Some \<lparr>ret_N = map (\<lambda>m. day_N j (doy tza (date_at date m))) [0..<length T_mn],
       ret_R_a = map (\<lambda>m. day_R_a j (doy tza (date_at date m))) [0..<length T_mn],
       ret_R_s = map (\<lambda>m. day_R_s j T_mn T_mx m (doy tza (date_at date m))) [0..<length T_mn],
       ret_PAR = map (\<lambda>m. PAR (day_R_s j T_mn T_mx m (doy tza (date_at date m)))) [0..<length T_mn],
       ret_PPF = map (\<lambda>m. PPF (PAR (day_R_s j T_mn T_mx m (doy tza (date_at date m)))
                        * Num 1000000)) [0..<length T_mn],
       ret_f_s = map (\<lambda>m. f_s (day_R_s j T_mn T_mx m (doy tza (date_at date m)))
                   (day_R_a j (doy tza (date_at date m)))) [0..<length T_mn],
       ret_date = map (\<lambda>m. split_0 CHR ''T'' (toISOString (date_at date m))) [0..<length T_mn],
       ret_doy = map (\<lambda>m. doy tza (date_at date m)) [0..<length T_mn]\<rparr>)"
proof (cases "Date_parse s")
  case None
  then show ?thesis by (simp add: solar_def)
next
  case (Some date)
  let ?r0 = "\<lparr>ret_N = [], ret_R_a = [], ret_R_s = [], ret_PAR = [], ret_PPF = [],
              ret_f_s = [], ret_date = [], ret_doy = []\<rparr>"
  have "solar tza j T_mn T_mx s =
      Some (solar_loop tza j T_mn T_mx 0 (0 + length T_mn) (date, doy tza date, ?r0))"
    by (simp add: solar_def Some)
  also have "solar_loop tza j T_mn T_mx 0 (0 + length T_mn) (date, doy tza date, ?r0) =
      \<lparr>ret_N = map (\<lambda>m. day_N j (doy tza (date_at date m))) [0..<length T_mn],
       ret_R_a = map (\<lambda>m. day_R_a j (doy tza (date_at date m))) [0..<length T_mn],
       ret_R_s = map (\<lambda>m. day_R_s j T_mn T_mx m (doy tza (date_at date m))) [0..<length T_mn],
       ret_PAR = map (\<lambda>m. PAR (day_R_s j T_mn T_mx m (doy tza (date_at date m)))) [0..<length T_mn],
       ret_PPF = map (\<lambda>m. PPF (PAR (day_R_s j T_mn T_mx m (doy tza (date_at date m)))
                        * Num 1000000)) [0..<length T_mn],
       ret_f_s = map (\<lambda>m. f_s (day_R_s j T_mn T_mx m (doy tza (date_at date m)))
                   (day_R_a j (doy tza (date_at date m)))) [0..<length T_mn],
       ret_date = map (\<lambda>m. split_0 CHR ''T'' (toISOString (date_at date m))) [0..<length T_mn],
       ret_doy = map (\<lambda>m. doy tza (date_at date m)) [0..<length T_mn]\<rparr>"
    by (subst solar_loop_unfold) simp_all
  finally show ?thesis
    by (simp add: Some)
qed

subsection \<open>The start date 2021-03-01\<close>

lemma parse_2021_03_01: "Date_parse ''2021-03-01'' = Some 1614556800000"
  by code_simp

lemma date_at_2021_03_01:
  "date_at 1614556800000 0 = 1614556800000" "date_at 1614556800000 (Suc 0) = 1614643200000"
  "date_at 1614556800000 2 = 1614729600000" "date_at 1614556800000 3 = 1614816000000"
  "date_at 1614556800000 4 = 1614902400000"
  by (simp_all add: date_at_def msPerDay_def)

lemma doy_utc:
  "doy 0 1614556800000 = 60" "doy 0 1614643200000 = 61" "doy 0 1614729600000 = 62"
  "doy 0 1614816000000 = 63" "doy 0 1614902400000 = 64"
  by code_simp+

lemma doy_plus1:
  "doy 3600000 1614556800000 = 61" "doy 3600000 1614643200000 = 62"
  "doy 3600000 1614729600000 = 63" "doy 3600000 1614816000000 = 64"
  "doy 3600000 1614902400000 = 65"
  by code_simp+

lemma iso_dates:
  "split_0 CHR ''T'' (toISOString 1614556800000) = ''2021-03-01''"
  "split_0 CHR ''T'' (toISOString 1614643200000) = ''2021-03-02''"
  "split_0 CHR ''T'' (toISOString 1614729600000) = ''2021-03-03''"
  "split_0 CHR ''T'' (toISOString 1614816000000) = ''2021-03-04''"
  "split_0 CHR ''T'' (toISOString 1614902400000) = ''2021-03-05''"
  by code_simp+

lemma date_at_0: "date_at date 0 = date"
  by (simp add: date_at_def)

lemma R_s_NaN: "R_s r a NaN = NaN"
  by (simp add: R_s_def Let_def)

lemma PAR_NaN: "PAR NaN = NaN"
  by (simp add: PAR_def)

lemma PPF_NaN: "PPF NaN = NaN"
  by (simp add: PPF_def)

subsection \<open>Lengths and out-of-range reads\<close>

lemma solar_length:
  assumes "solar tza j T_mn T_mx s = Some r"
  shows "length (ret_N r) = length T_mn \<and> length (ret_R_a r) = length T_mn
    \<and> length (ret_R_s r) = length T_mn \<and> length (ret_PAR r) = length T_mn
    \<and> length (ret_PPF r) = length T_mn \<and> length (ret_f_s r) = length T_mn
    \<and> length (ret_date r) = length T_mn \<and> length (ret_doy r) = length T_mn"
  using assms by (auto simp: solar_unfold split: option.splits)

subsection \<open>Dates and days of year from 2021-03-01\<close>

text \<open>
  The date strings are the same in every time zone. The days of year are 60 to 64 when
  local time is UTC, and 61 to 65 when local time is one hour ahead of UTC: the start date
  is midnight UTC, that is 01:00 local time, one hour more than 59 days after the local
  midnight of January 1, and \<open>doy\<close> rounds up before it adds 1.
\<close>

text \<open>
  In general, for a date at midnight UTC in a year other than 0 to 99: at a host on UTC
  \<open>doy\<close> is the day within the year plus 1, and at a host ahead of UTC (by less than a
  day) it is one more.
\<close>

lemma doy_midnight:
  assumes mid: "TimeWithinDay t = 0"
    and tza: "0 \<le> tza" "tza < msPerDay"
    and yr: "\<not> (0 \<le> YearFromTime t \<and> YearFromTime t \<le> 99)"
  shows "doy tza t = DayWithinYear t + (if tza = 0 then 1 else 2)"
proof -
  have t: "t = Day t * msPerDay"
    using mid div_mult_mod_eq[of t msPerDay] by (simp add: TimeWithinDay_def Day_def)
  have "(tza + Day t * msPerDay) div msPerDay = Day t + tza div msPerDay"
    by (subst div_mult_self1) (simp_all add: msPerDay_def)
  then have day: "Day (LocalTime tza t) = Day t"
    using tza t by (simp add: LocalTime_def Day_def[of "t + tza"] add.commute div_pos_pos_trivial)
  have year: "getFullYear tza t = YearFromTime t"
    unfolding getFullYear_def YearFromTime_def day by (rule refl)
  have diff: "t - new_Date tza (getFullYear tza t) 0 1 = DayWithinYear t * msPerDay + tza"
    unfolding year new_Date_jan1 if_not_P[OF yr] DayWithinYear_def
    using t by (simp add: algebra_simps)
  have c: "\<lceil>real_of_int (k * msPerDay + tza) / real_of_int MS_PER_DAY\<rceil> =
      k + (if tza = 0 then 0 else 1)" for k
  proof -
    have "- (k * 86400000 + tza) = (- tza) + (- k) * 86400000"
      by simp
    then have "(- (k * 86400000 + tza)) div 86400000 = - k + (- tza) div 86400000"
      by (simp only: div_mult_self1)
    moreover have "(- tza) div 86400000 = (if tza = 0 then 0 else - 1)"
      using tza by (auto simp: msPerDay_def div_eq_minus1 zdiv_zminus1_eq_if div_pos_pos_trivial)
    ultimately have "- ((- (k * 86400000 + tza)) div 86400000) = k + (if tza = 0 then 0 else 1)"
      by simp
    moreover have "MS_PER_DAY = 86400000"
      by (simp add: MS_PER_DAY_def)
    ultimately show ?thesis
      unfolding msPerDay_def by (simp only: ceiling_divide_eq_div)
  qed
  show ?thesis
    unfolding doy_def diff c by simp
qed

lemma solar_date_doy_5:
  assumes "length T_mn = 5"
  shows "map_option ret_date (solar tza j T_mn T_mx ''2021-03-01'') =
      Some [''2021-03-01'', ''2021-03-02'', ''2021-03-03'', ''2021-03-04'', ''2021-03-05'']"
    and "map_option ret_doy (solar 0 j T_mn T_mx ''2021-03-01'') = Some [60, 61, 62, 63, 64]"
    and "map_option ret_doy (solar 3600000 j T_mn T_mx ''2021-03-01'') = Some [61, 62, 63, 64, 65]"
proof -
  have five: "length T_mn = Suc (Suc (Suc (Suc (Suc 0))))"
    using assms by simp
  show "map_option ret_date (solar tza j T_mn T_mx ''2021-03-01'') =
      Some [''2021-03-01'', ''2021-03-02'', ''2021-03-03'', ''2021-03-04'', ''2021-03-05'']"
    by (simp add: solar_unfold parse_2021_03_01 five map_upt_Suc date_at_Suc[symmetric]
          date_at_0 msPerDay_def iso_dates del: upt.simps)
  show "map_option ret_doy (solar 0 j T_mn T_mx ''2021-03-01'') = Some [60, 61, 62, 63, 64]"
    by (simp add: solar_unfold parse_2021_03_01 five map_upt_Suc date_at_Suc[symmetric]
          date_at_0 msPerDay_def doy_utc del: upt.simps)
  show "map_option ret_doy (solar 3600000 j T_mn T_mx ''2021-03-01'') = Some [61, 62, 63, 64, 65]"
    by (simp add: solar_unfold parse_2021_03_01 five map_upt_Suc date_at_Suc[symmetric]
          date_at_0 msPerDay_def doy_plus1 del: upt.simps)
qed

text \<open>
  C1, at a host one hour ahead of UTC: for the start date 2021-03-01 and five
  temperatures the driver returns the dates 2021-03-01 to 2021-03-05 and the days of year
  61 to 65, not 60 to 64.
\<close>

theorem solar_2021_03_01_plus1:
  "map_option ret_date
     (solar 3600000 (Num 52) [Num 1, Num 2, Num 3, Num 4, Num 5]
        [Num 10, Num 11, Num 12, Num 13, Num 14] ''2021-03-01'') =
     Some [''2021-03-01'', ''2021-03-02'', ''2021-03-03'', ''2021-03-04'', ''2021-03-05'']
   \<and> map_option ret_doy
     (solar 3600000 (Num 52) [Num 1, Num 2, Num 3, Num 4, Num 5]
        [Num 10, Num 11, Num 12, Num 13, Num 14] ''2021-03-01'') =
     Some [61, 62, 63, 64, 65]"
proof -
  have l: "length [Num 1, Num 2, Num 3, Num 4, Num 5] = 5"
    by simp
  show ?thesis
    using solar_date_doy_5(1)[OF l] solar_date_doy_5(3)[OF l] by simp
qed

text \<open>At a host whose local time is UTC the days of year are 60 to 64.\<close>

lemma solar_2021_03_01_utc:
  assumes "length T_mn = 5"
  shows "map_option (\<lambda>r. (ret_date r, ret_doy r)) (solar 0 j T_mn T_mx ''2021-03-01'') =
     Some ([''2021-03-01'', ''2021-03-02'', ''2021-03-03'', ''2021-03-04'', ''2021-03-05''],
           [60, 61, 62, 63, 64])"
  using solar_date_doy_5(1)[OF assms, of 0 j T_mx] solar_date_doy_5(2)[OF assms, of j T_mx]
  by (cases "solar 0 j T_mn T_mx ''2021-03-01''") simp_all

text \<open>
  C7, for the driver with a start date: the same latitude, temperatures and start date
  give different results at a host on UTC and at a host one hour ahead of UTC.
\<close>

theorem solar_zone_dependent:
  "solar 0 (Num 52) [Num 1, Num 2, Num 3, Num 4, Num 5]
      [Num 10, Num 11, Num 12, Num 13, Num 14] ''2021-03-01'' \<noteq>
   solar 3600000 (Num 52) [Num 1, Num 2, Num 3, Num 4, Num 5]
      [Num 10, Num 11, Num 12, Num 13, Num 14] ''2021-03-01''"
proof
  assume "solar 0 (Num 52) [Num 1, Num 2, Num 3, Num 4, Num 5]
      [Num 10, Num 11, Num 12, Num 13, Num 14] ''2021-03-01'' =
   solar 3600000 (Num 52) [Num 1, Num 2, Num 3, Num 4, Num 5]
      [Num 10, Num 11, Num 12, Num 13, Num 14] ''2021-03-01''"
  then have "map_option ret_doy (solar 0 (Num 52) [Num 1, Num 2, Num 3, Num 4, Num 5]
      [Num 10, Num 11, Num 12, Num 13, Num 14] ''2021-03-01'') =
    map_option ret_doy (solar 3600000 (Num 52) [Num 1, Num 2, Num 3, Num 4, Num 5]
      [Num 10, Num 11, Num 12, Num 13, Num 14] ''2021-03-01'')"
    by (rule arg_cong)
  moreover have l: "length [Num 1, Num 2, Num 3, Num 4, Num 5] = 5"
    by simp
  ultimately show False
    unfolding solar_date_doy_5(2)[OF l] solar_date_doy_5(3)[OF l] by simp
qed

text \<open>
  C9. The series \<open>N\<close>, \<open>R_a\<close>, \<open>date\<close> and \<open>doy\<close> do not depend on the temperatures: two
  calls with the same latitude, start date and number of minimum temperatures return the
  same four series.
\<close>

theorem solar_temperature_independent:
  "length T_mn = length T_mn' \<Longrightarrow>
   map_option (\<lambda>r. (ret_N r, ret_R_a r, ret_date r, ret_doy r)) (solar tza j T_mn T_mx s) =
   map_option (\<lambda>r. (ret_N r, ret_R_a r, ret_date r, ret_doy r)) (solar tza j T_mn' T_mx' s)"
  by (simp add: solar_unfold split: option.split)

theorem solar_temperature_independent_witness:
  "length [Num 1, Num 2] = length [Num 3, Num 4]
   \<and> map_option (\<lambda>r. (ret_N r, ret_R_a r, ret_date r, ret_doy r))
       (solar 0 (Num 52) [Num 1, Num 2] [Num 10, Num 11] ''2021-03-01'') =
     map_option (\<lambda>r. (ret_N r, ret_R_a r, ret_date r, ret_doy r))
       (solar 0 (Num 52) [Num 3, Num 4] [Num 20, Num 30] ''2021-03-01'')"
proof -
  have h: "length [Num 1, Num 2] = length [Num 3, Num 4]"
    by simp
  from solar_temperature_independent[OF h] h show ?thesis
    by blast
qed


subsection \<open>Arrays of unequal length\<close>

lemma arr_get_beyond: "length xs \<le> i \<Longrightarrow> arr_get xs i = NaN"
  by (simp add: arr_get_def)

lemma day_R_s_beyond: "length T_mx \<le> i \<Longrightarrow> day_R_s j T_mn T_mx i dy = NaN"
  by (simp add: day_R_s_def arr_get_beyond R_s_NaN)

text \<open>
  C10, amended. For a start date of the form \<open>YYYY-MM-DD\<close> the driver returns a result for
  every latitude and every pair of temperature arrays, and each of the eight series has
  the length of \<open>T_mn\<close>. At an index at or beyond the length of \<open>T_mx\<close> the entries of \<open>R_s\<close>,
  \<open>PAR\<close> and \<open>PPF\<close> are NaN and the entry of \<open>f_s\<close> is 1: no test of \<open>f_s\<close> holds for a NaN
  ratio, so the diffuse fraction keeps its initial value 0.
\<close>

theorem solar_unvalidated:
  assumes "Date_parse s = Some date"
  shows "\<exists>r. solar tza j T_mn T_mx s = Some r
    \<and> length (ret_N r) = length T_mn \<and> length (ret_R_a r) = length T_mn
    \<and> length (ret_R_s r) = length T_mn \<and> length (ret_PAR r) = length T_mn
    \<and> length (ret_PPF r) = length T_mn \<and> length (ret_f_s r) = length T_mn
    \<and> length (ret_date r) = length T_mn \<and> length (ret_doy r) = length T_mn
    \<and> (\<forall>i. length T_mx \<le> i \<and> i < length T_mn \<longrightarrow>
          ret_R_s r ! i = NaN \<and> ret_PAR r ! i = NaN \<and> ret_PPF r ! i = NaN
          \<and> ret_f_s r ! i = Num 1)"
  by (simp add: solar_unfold assms day_R_s_beyond PAR_NaN PPF_NaN f_s_NaN)

text \<open>
  C10 as stated has the entry of \<open>f_s\<close> NaN where \<open>T_mx\<close> is too short. It is 1.
\<close>

theorem solar_short_T_mx_counterexample:
  "map_option (\<lambda>r. ret_f_s r ! 1)
     (solar 0 (Num 52) [Num 1, Num 2] [Num 10] ''2021-03-01'') = Some (Num 1)"
  by (simp add: solar_unfold parse_2021_03_01 day_R_s_beyond f_s_NaN)

theorem solar_unvalidated_witness:
  "Date_parse ''2021-03-01'' = Some 1614556800000
   \<and> (\<exists>r. solar 0 (Num 52) [Num 1, Num 2] [Num 10] ''2021-03-01'' = Some r
        \<and> length (ret_N r) = 2 \<and> length (ret_f_s r) = 2 \<and> length (ret_doy r) = 2
        \<and> ret_R_s r ! 1 = NaN \<and> ret_PAR r ! 1 = NaN \<and> ret_PPF r ! 1 = NaN
        \<and> ret_f_s r ! 1 = Num 1)"
proof -
  obtain r where r: "solar 0 (Num 52) [Num 1, Num 2] [Num 10] ''2021-03-01'' = Some r"
    "length (ret_N r) = length [Num 1, Num 2]" "length (ret_f_s r) = length [Num 1, Num 2]"
    "length (ret_doy r) = length [Num 1, Num 2]"
    "\<forall>i. length [Num 10] \<le> i \<and> i < length [Num 1, Num 2] \<longrightarrow>
          ret_R_s r ! i = NaN \<and> ret_PAR r ! i = NaN \<and> ret_PPF r ! i = NaN
          \<and> ret_f_s r ! i = Num 1"
    using solar_unvalidated[OF parse_2021_03_01, of 0 "Num 52" "[Num 1, Num 2]" "[Num 10]"]
    by blast
  from r(5) have "ret_R_s r ! 1 = NaN \<and> ret_PAR r ! 1 = NaN \<and> ret_PPF r ! 1 = NaN
          \<and> ret_f_s r ! 1 = Num 1"
    by simp
  with r(1-4) parse_2021_03_01 show ?thesis
    by simp
qed

section \<open>The driver with a range of years\<close>

subsection \<open>Days between two first days of January\<close>

text \<open>So the days of the years \<open>first_year\<close> to \<open>last_year\<close> add up to a difference of day numbers.\<close>

lemma total_days_eq:
  assumes "first_year \<le> last_year + 1"
  shows "total_days first_year last_year = DayFromYear (last_year + 1) - DayFromYear first_year"
proof -
  have "first_year - 1 \<le> last_year"
    using assms by simp
  then show ?thesis
  proof (induction last_year rule: int_ge_induct)
    case base
    show ?case by (simp add: total_days_def)
  next
    case (step i)
    then have "[first_year..i + 1] = [first_year..i] @ [i + 1]"
      by (simp add: upto_rec2)
    then have "total_days first_year (i + 1) = total_days first_year i + DaysInYear (i + 1)"
      by (simp add: total_days_def)
    with step.IH show ?case
      using DayFromYear_Suc[of "i + 1"] by (simp add: algebra_simps)
  qed
qed

lemma ceiling_days: "\<lceil>real_of_int (a * msPerDay) / real_of_int MS_PER_DAY\<rceil> = a"
  by (simp add: msPerDay_def MS_PER_DAY_def)

lemma jan1_difference:
  "\<lceil>real_of_int (new_Date tza y 0 1 - new_Date tza y' 0 1) / real_of_int MS_PER_DAY\<rceil> =
     DayFromYear (if 0 \<le> y \<and> y \<le> 99 then 1900 + y else y)
     - DayFromYear (if 0 \<le> y' \<and> y' \<le> 99 then 1900 + y' else y')"
proof -
  have "new_Date tza y 0 1 - new_Date tza y' 0 1 =
      (DayFromYear (if 0 \<le> y \<and> y \<le> 99 then 1900 + y else y)
       - DayFromYear (if 0 \<le> y' \<and> y' \<le> 99 then 1900 + y' else y')) * msPerDay"
    unfolding new_Date_jan1 by (simp add: algebra_simps)
  then show ?thesis
    by (simp only: ceiling_days)
qed

subsection \<open>The host's time zone does not matter\<close>

text \<open>
  For a host with a constant offset, as everywhere in the model: the offset cancels in
  the difference of two first days of January.
\<close>

lemma year_loop_zone_independent:
  "year_loop tza j T_mn T_mx year last_year st = year_loop 0 j T_mn T_mx year last_year st"
proof (induction tza j T_mn T_mx year last_year st rule: year_loop.induct)
  case (1 tza j T_mn T_mx year last_year st)
  show ?case
  proof (cases "year < last_year + 1")
    case True
    have unfold: "year_loop z j T_mn T_mx year last_year st =
        year_loop z j T_mn T_mx (year + 1) last_year
          (day_loop j T_mn T_mx 0
             (DayFromYear (if 0 \<le> year + 1 \<and> year + 1 \<le> 99 then 1900 + (year + 1) else year + 1)
              - DayFromYear (if 0 \<le> year \<and> year \<le> 99 then 1900 + year else year)) st)" for z
      by (subst year_loop.simps) (simp only: True if_True Let_def jan1_difference)
    show ?thesis
      unfolding unfold by (rule "1.IH"[OF True refl, unfolded jan1_difference])
  next
    case False
    then show ?thesis
      by (subst year_loop.simps, subst (2) year_loop.simps) simp
  qed
qed

lemma solar_years_zone_independent:
  "solar_years tza j T_mn T_mx first_year last_year =
   solar_years 0 j T_mn T_mx first_year last_year"
  unfolding solar_years_def jan1_difference
  by (subst year_loop_zone_independent) (rule refl)

subsection \<open>The length check\<close>

text \<open>
  When neither \<open>first_year\<close> nor \<open>last_year + 1\<close> is a year from 0 to 99, the driver returns
  \<open>null\<close>, after writing one line to the console, exactly when one of the arrays has a
  length other than the number of days of the years \<open>first_year\<close> to \<open>last_year\<close> (on a
  host with a constant offset).
\<close>

lemma solar_years_null_iff:
  assumes "first_year \<le> last_year" "\<not> (0 \<le> first_year \<and> first_year \<le> 99)"
    "\<not> (0 \<le> last_year + 1 \<and> last_year + 1 \<le> 99)"
  shows "snd (solar_years tza j T_mn T_mx first_year last_year) = None \<longleftrightarrow>
      int (length T_mn) \<noteq> total_days first_year last_year
      \<or> int (length T_mx) \<noteq> total_days first_year last_year"
    and "fst (solar_years tza j T_mn T_mx first_year last_year) =
      (if snd (solar_years tza j T_mn T_mx first_year last_year) = None
       then [''T_mn or T_mx != no_days''] else [])"
proof -
  have t: "total_days first_year last_year = DayFromYear (last_year + 1) - DayFromYear first_year"
    using assms(1) by (intro total_days_eq) simp
  show "snd (solar_years tza j T_mn T_mx first_year last_year) = None \<longleftrightarrow>
      int (length T_mn) \<noteq> total_days first_year last_year
      \<or> int (length T_mx) \<noteq> total_days first_year last_year"
    unfolding solar_years_def jan1_difference if_not_P[OF assms(2)] if_not_P[OF assms(3)] t
    by (simp add: Let_def)
  show "fst (solar_years tza j T_mn T_mx first_year last_year) =
      (if snd (solar_years tza j T_mn T_mx first_year last_year) = None
       then [''T_mn or T_mx != no_days''] else [])"
    unfolding solar_years_def jan1_difference by (simp add: Let_def)
qed

lemma total_days_2000: "total_days 2000 2000 = 366"
  by (simp add: total_days_def upto.simps DaysInYear_def)

lemma total_days_99: "total_days 99 99 = 365"
  by (simp add: total_days_def upto.simps DaysInYear_def)

lemma solar_years_2000:
  "snd (solar_years tza j T_mn T_mx 2000 2000) = None \<longleftrightarrow>
     length T_mn \<noteq> 366 \<or> length T_mx \<noteq> 366"
  using solar_years_null_iff(1)[of 2000 2000 tza j T_mn T_mx]
  by (simp add: total_days_2000)

lemma DayFromYear_100_1999: "DayFromYear 100 - DayFromYear 1999 = - 693595"
  by (simp add: DayFromYear_def)

text \<open>
  C2, for the year 99: with 365 minimum and 365 maximum temperatures, the number of days
  of that year, the driver writes its diagnostic and returns \<open>null\<close>. It compares the length
  with the days from January 1, 1999 (\<open>new Date(99, 0, 1)\<close>) to January 1, 100
  (\<open>new Date(100, 0, 1)\<close>), a negative number.
\<close>

theorem solar_years_99:
  assumes "length T_mn = 365" "length T_mx = 365"
  shows "solar_years tza j T_mn T_mx 99 99 = ([''T_mn or T_mx != no_days''], None)
    \<and> int (length T_mn) = total_days 99 99 \<and> int (length T_mx) = total_days 99 99"
  unfolding solar_years_def jan1_difference
  using assms by (simp add: DayFromYear_100_1999 total_days_99 Let_def)

theorem solar_years_99_witness:
  "length (replicate 365 (Num 1)) = 365 \<and> length (replicate 365 (Num 10)) = 365
   \<and> solar_years 0 (Num 52) (replicate 365 (Num 1)) (replicate 365 (Num 10)) 99 99 =
       ([''T_mn or T_mx != no_days''], None)
   \<and> total_days 99 99 = 365"
proof -
  have l: "length (replicate 365 (Num 1)) = 365" "length (replicate 365 (Num 10)) = 365"
    by simp_all
  from solar_years_99[OF l, of 0 "Num 52"] l show ?thesis
    by simp
qed

end
